theory Spec2Isabelle
  imports Main "HOL-Library.AList"
begin

section \<open>The graph builder of \<^verbatim>\<open>langgraph/graph/graph.py\<close>\<close>

text \<open>
  Python values are modelled as follows.
  \<^item> A \<^verbatim>\<open>dict\<close> is an association list in insertion order with distinct keys:
    \<open>map_of\<close> reads a key, \<open>AList.update\<close> stores one (in place when the key is there, at the
    end when it is new), \<open>map fst\<close> lists the keys as iteration does.
  \<^item> A \<^verbatim>\<open>set\<close> is a list without duplicates built by \<open>set_add\<close>. Python leaves the
    iteration order of a set open; the model iterates in insertion order, and no theorem
    below depends on which of several offending set elements a loop meets first.
  \<^item> A \<^verbatim>\<open>raise\<close> is a value of type \<open>error\<close>; a method that mutates \<^verbatim>\<open>self\<close> takes the
    object and returns an \<open>outcome\<close>: what it raised or returned, what it logged, and the
    object as the call left it.
\<close>

definition START :: string where
  "START = ''__start__''"

definition END :: string where
  "END = ''__end__''"

datatype error =
    NodeAlreadyPresent string
  | NodeReserved string
  | EndCannotBeStart
  | StartCannotBeEnd
  | AlreadyFoundPath string
  | BranchAlreadyExists "string option" string
  | DeadEnd string
  | EdgeStartingAtUnknownNode string
  | BranchUnknownTarget string string string
  | NotReachable string
  | EdgeEndingAtUnknownNode string
  | InterruptNotFound string
  | UnboundLocalError string
  | KeyError string
  | PregelValidationError

text \<open>
  All constructors up to \<open>InterruptNotFound\<close> are the \<^verbatim>\<open>ValueError\<close>s of the source, one
  per message. \<open>UnboundLocalError\<close> and \<open>KeyError\<close> are the interpreter's own errors for a
  local variable read before it is bound and for a missing dictionary key.
  \<open>PregelValidationError\<close> stands for whatever \<^verbatim>\<open>Pregel.validate\<close> raises.
\<close>

datatype warning = CompiledAddNode | CompiledAddEdge

record ('r, 's) outcome =
  result :: "error + 'r"
  warnings :: "warning list"
  state :: 's

definition set_add :: "'x \<Rightarrow> 'x list \<Rightarrow> 'x list" where
  "set_add x xs = (if x \<in> set xs then xs else xs @ [x])"

text \<open>A \<^verbatim>\<open>for\<close> loop whose body may raise: the first raise ends it.\<close>

fun first_raise :: "('x \<Rightarrow> error option) \<Rightarrow> 'x list \<Rightarrow> error option" where
  "first_raise f [] = None"
| "first_raise f (x # xs) = (case f x of Some e \<Rightarrow> Some e | None \<Rightarrow> first_raise f xs)"

fun fold_raise :: "('x \<Rightarrow> 's \<Rightarrow> error + 's) \<Rightarrow> 'x list \<Rightarrow> 's \<Rightarrow> error + 's" where
  "fold_raise f [] s = Inr s"
| "fold_raise f (x # xs) s = (case f x s of Inl e \<Rightarrow> Inl e | Inr s' \<Rightarrow> fold_raise f xs s')"

subsection \<open>Branch\<close>

text \<open>
  The routing function returns \<^verbatim>\<open>Union[str, list[str]]\<close>. The path is a runnable: its
  \<^verbatim>\<open>name\<close> attribute (which may be \<^verbatim>\<open>None\<close>) and what \<^verbatim>\<open>invoke\<close> returns on an input.
\<close>

datatype path_result = Label string | Labels "string list"

record 'i Runnable =
  name :: "string option"
  invoke :: "'i \<Rightarrow> path_result"

record 'i Branch =
  path :: "'i Runnable"
  ends :: "(string \<times> string) list option"
  then_node :: "string option"

text \<open>
  What \<^verbatim>\<open>_route\<close> returns, \<^verbatim>\<open>writer(destinations) or input\<close>: the channel write the writer
  built, which the caller then runs, or the input passed through.
\<close>

datatype 'i routed = Write "string list" | Passthrough 'i

definition route :: "'i Branch \<Rightarrow> (string list \<Rightarrow> string list option) \<Rightarrow> 'i \<Rightarrow> error + 'i routed" where
  "route self writer input =
     (let result0 = invoke (path self) input;
          result1 = (case result0 of Labels rs \<Rightarrow> rs | Label r \<Rightarrow> [r]);
          destinations =
            (case ends self of
               None \<Rightarrow> Inr result1
             | Some es \<Rightarrow>
                 if es \<noteq> [] then
                   fold_raise (\<lambda>r ds. case map_of es r of
                                        None \<Rightarrow> Inl (KeyError r)
                                      | Some d \<Rightarrow> Inr (ds @ [d])) result1 []
                 else Inr result1)
      in case destinations of
           Inl e \<Rightarrow> Inl e
         | Inr ds \<Rightarrow> (case writer ds of Some w \<Rightarrow> Inr (Write w) | None \<Rightarrow> Inr (Passthrough input)))"

subsection \<open>Graph\<close>

record ('a, 'i) Graph =
  nodes :: "(string \<times> 'a) list"
  edges :: "(string \<times> string) list"
  branches :: "(string \<times> (string \<times> 'i Branch) list) list"
  support_multiple_edges :: bool
  compiled :: bool

definition Graph_init :: "('a, 'i) Graph" where
  "Graph_init = \<lparr>nodes = [], edges = [], branches = [],
                 support_multiple_edges = False, compiled = False\<rparr>"

definition add_node :: "string \<Rightarrow> 'a \<Rightarrow> ('a, 'i) Graph \<Rightarrow> (unit, ('a, 'i) Graph) outcome" where
  "add_node key action self =
     (let w = (if compiled self then [CompiledAddNode] else []) in
      if key \<in> set (map fst (nodes self)) then
        \<lparr>result = Inl (NodeAlreadyPresent key), warnings = w, state = self\<rparr>
      else if key = END \<or> key = START then
        \<lparr>result = Inl (NodeReserved key), warnings = w, state = self\<rparr>
      else
        \<lparr>result = Inr (), warnings = w,
         state = self\<lparr>nodes := AList.update key action (nodes self)\<rparr>\<rparr>)"

definition add_edge :: "string \<Rightarrow> string \<Rightarrow> ('a, 'i) Graph \<Rightarrow> (unit, ('a, 'i) Graph) outcome" where
  "add_edge start_key end_key self =
     (let w = (if compiled self then [CompiledAddEdge] else []) in
      if start_key = END then
        \<lparr>result = Inl EndCannotBeStart, warnings = w, state = self\<rparr>
      else if end_key = START then
        \<lparr>result = Inl StartCannotBeEnd, warnings = w, state = self\<rparr>
      else if \<not> support_multiple_edges self \<and> start_key \<in> set (map fst (edges self)) then
        \<lparr>result = Inl (AlreadyFoundPath start_key), warnings = w, state = self\<rparr>
      else
        \<lparr>result = Inr (), warnings = w,
         state = self\<lparr>edges := set_add (start_key, end_key) (edges self)\<rparr>\<rparr>)"

text \<open>
  \<^verbatim>\<open>self.branches\<close> is a \<^verbatim>\<open>defaultdict(dict)\<close>: reading \<^verbatim>\<open>self.branches[source]\<close> for a
  source that is not a key stores an empty dictionary under it. That read is the first
  thing \<^verbatim>\<open>add_conditional_edges\<close> does to the builder, before its check.
\<close>

definition defaultdict_touch :: "string \<Rightarrow> (string \<times> (string \<times> 'b) list) list
    \<Rightarrow> (string \<times> (string \<times> 'b) list) list" where
  "defaultdict_touch source bs =
     (case map_of bs source of None \<Rightarrow> AList.update source [] bs | Some _ \<Rightarrow> bs)"

definition defaultdict_get :: "(string \<times> (string \<times> 'b) list) list \<Rightarrow> string \<Rightarrow> (string \<times> 'b) list" where
  "defaultdict_get bs source = (case map_of bs source of None \<Rightarrow> [] | Some d \<Rightarrow> d)"

definition branch_name :: "'i Runnable \<Rightarrow> string" where
  "branch_name p = (case name p of None \<Rightarrow> ''condition''
                    | Some n \<Rightarrow> if n = [] then ''condition'' else n)"

definition add_conditional_edges :: "string \<Rightarrow> 'i Runnable \<Rightarrow> (string \<times> string) list option
    \<Rightarrow> string option \<Rightarrow> ('a, 'i) Graph \<Rightarrow> (unit, ('a, 'i) Graph) outcome" where
  "add_conditional_edges source p path_map thn self =
     (let w = (if compiled self then [CompiledAddEdge] else []);
          nm = branch_name p;
          self1 = self\<lparr>branches := defaultdict_touch source (branches self)\<rparr>;
          d = defaultdict_get (branches self1) source
      in if nm \<in> set (map fst d) then
           \<lparr>result = Inl (BranchAlreadyExists (name p) source), warnings = w, state = self1\<rparr>
         else
           \<lparr>result = Inr (), warnings = w,
            state = self1\<lparr>branches :=
              AList.update source
                (AList.update nm \<lparr>path = p, ends = path_map, then_node = thn\<rparr> d)
                (branches self1)\<rparr>\<rparr>)"

definition set_entry_point :: "string \<Rightarrow> ('a, 'i) Graph \<Rightarrow> (unit, ('a, 'i) Graph) outcome" where
  "set_entry_point key self = add_edge START key self"

definition set_conditional_entry_point :: "'i Runnable \<Rightarrow> (string \<times> string) list option
    \<Rightarrow> string option \<Rightarrow> ('a, 'i) Graph \<Rightarrow> (unit, ('a, 'i) Graph) outcome" where
  "set_conditional_entry_point p path_map thn self = add_conditional_edges START p path_map thn self"

definition set_finish_point :: "string \<Rightarrow> ('a, 'i) Graph \<Rightarrow> (unit, ('a, 'i) Graph) outcome" where
  "set_finish_point key self = add_edge key END self"

subsection \<open>validate\<close>

text \<open>All \<^verbatim>\<open>(start, cond, branch)\<close> triples in the order the two nested loops visit them.\<close>

definition branch_items :: "('a, 'i) Graph \<Rightarrow> (string \<times> string \<times> 'i Branch) list" where
  "branch_items self =
     concat (map (\<lambda>(start, bs). map (\<lambda>(cond, branch). (start, cond, branch)) bs) (branches self))"

definition sources_of_branch :: "string list \<Rightarrow> string \<times> string \<times> 'i Branch \<Rightarrow> string list \<Rightarrow> string list" where
  "sources_of_branch ks item all_sources =
     (case item of (start, cond, branch) \<Rightarrow>
        (let s1 = set_add start all_sources in
         case then_node branch of
           None \<Rightarrow> s1
         | Some t \<Rightarrow>
             (case ends branch of
                Some es \<Rightarrow> fold set_add (map snd es) s1
              | None \<Rightarrow> fold set_add (filter (\<lambda>node. node \<noteq> start \<and> node \<noteq> t) ks) s1)))"

definition all_sources :: "('a, 'i) Graph \<Rightarrow> string list" where
  "all_sources self =
     fold (sources_of_branch (map fst (nodes self))) (branch_items self)
       (fold set_add (map fst (edges self)) [])"

text \<open>
  The loop \<^verbatim>\<open>for node in self.nodes\<close> that checks for dead ends leaves its variable
  \<^verbatim>\<open>node\<close> at the last key when it ends without raising, and leaves it as it was when
  there are no nodes. The only earlier binding of \<^verbatim>\<open>node\<close> is the loop over
  \<^verbatim>\<open>self.nodes\<close> inside the assembly of the sources, which binds nothing either when there
  are no nodes. So after the dead-end loop \<^verbatim>\<open>node\<close> is unbound exactly when no node is
  declared.
\<close>

definition node_after_loop :: "string list \<Rightarrow> string option" where
  "node_after_loop ks = (if ks = [] then None else Some (last ks))"

text \<open>
  The body of \<^verbatim>\<open>for source in all_sources\<close>: its test reads \<^verbatim>\<open>node\<close>, not \<^verbatim>\<open>source\<close>.
\<close>

definition source_check :: "string list \<Rightarrow> string option \<Rightarrow> string \<Rightarrow> error option" where
  "source_check ks node_var source =
     (case node_var of
        None \<Rightarrow> Some (UnboundLocalError ''node'')
      | Some node \<Rightarrow>
          if node \<notin> set ks \<and> node \<noteq> START then Some (EdgeStartingAtUnknownNode source)
          else None)"

definition targets_of_branch :: "string list \<Rightarrow> string \<times> string \<times> 'i Branch \<Rightarrow> string list
    \<Rightarrow> error + string list" where
  "targets_of_branch ks item all_targets =
     (case item of (start, cond, branch) \<Rightarrow>
        (let t1 = (case then_node branch of Some t \<Rightarrow> set_add t all_targets | None \<Rightarrow> all_targets) in
         case ends branch of
           Some es \<Rightarrow>
             fold_raise (\<lambda>e acc. if e \<notin> set ks \<and> e \<noteq> END
                                  then Inl (BranchUnknownTarget start cond e)
                                  else Inr (set_add e acc)) (map snd es) t1
         | None \<Rightarrow>
             Inr (fold set_add
                    (filter (\<lambda>node. node \<noteq> start \<and> Some node \<noteq> then_node branch) ks)
                    (set_add END t1))))"

definition all_targets :: "('a, 'i) Graph \<Rightarrow> error + string list" where
  "all_targets self =
     fold_raise (targets_of_branch (map fst (nodes self))) (branch_items self)
       (fold set_add (map snd (edges self)) [])"

text \<open>The first validating loop: a declared node that is no source is a dead end.\<close>

definition dead_end_check :: "('a, 'i) Graph \<Rightarrow> error option" where
  "dead_end_check self =
     first_raise (\<lambda>node. if node \<notin> set (all_sources self) then Some (DeadEnd node) else None)
       (map fst (nodes self))"

definition or_else :: "error option \<Rightarrow> error option \<Rightarrow> error option" where
  "or_else a b = (case a of Some e \<Rightarrow> Some e | None \<Rightarrow> b)"

text \<open>The first error \<^verbatim>\<open>validate\<close> raises, statement by statement, or \<open>None\<close>.\<close>

definition validate_raises :: "string list \<Rightarrow> ('a, 'i) Graph \<Rightarrow> error option" where
  "validate_raises interrupt self =
     (let ks = map fst (nodes self); srcs = all_sources self in
      or_else (dead_end_check self)
     (or_else (first_raise (source_check ks (node_after_loop ks)) srcs)
     (case all_targets self of
        Inl e \<Rightarrow> Some e
      | Inr tgts \<Rightarrow>
          or_else (first_raise (\<lambda>node. if node \<notin> set tgts then Some (NotReachable node) else None) ks)
         (or_else (first_raise (\<lambda>target. if target \<notin> set ks \<and> target \<noteq> END
                                          then Some (EdgeEndingAtUnknownNode target) else None) tgts)
                  (first_raise (\<lambda>node. if node \<notin> set ks then Some (InterruptNotFound node) else None)
                     interrupt)))))"

definition validate :: "string list \<Rightarrow> ('a, 'i) Graph \<Rightarrow> (unit, ('a, 'i) Graph) outcome" where
  "validate interrupt self =
     (case validate_raises interrupt self of
        Some e \<Rightarrow> \<lparr>result = Inl e, warnings = [], state = self\<rparr>
      | None \<Rightarrow> \<lparr>result = Inr (), warnings = [], state = self\<lparr>compiled := True\<rparr>\<rparr>)"

subsection \<open>The compiled graph\<close>

datatype channel = EphemeralValue

text \<open>
  A writer stage of a lowered unit is either a \<^verbatim>\<open>ChannelWrite\<close> with its channel names, or
  the callable that \<^verbatim>\<open>Branch.run\<close> registers as a writer: \<^verbatim>\<open>_route\<close> of a branch, closed
  over the \<^verbatim>\<open>branch_writer\<close> of \<^verbatim>\<open>attach_branch\<close>, which itself closes over \<^verbatim>\<open>start\<close> and
  \<^verbatim>\<open>name\<close>.
\<close>

datatype 'i writer = ChannelWrite "string list" | BranchRoute string string "'i Branch"

record ('a, 'i) PregelNode =
  channels :: "string list"
  triggers :: "string list"
  bound :: "'a option"
  writers :: "'i writer list"

record ('a, 'i) CompiledGraph =
  cg_nodes :: "(string \<times> ('a, 'i) PregelNode) list"
  cg_channels :: "(string \<times> channel) list"
  stream_channels :: "string list"
  interrupt_before_nodes :: "string list"
  interrupt_after_nodes :: "string list"

text \<open>
  Modelled from the spec: \<^verbatim>\<open>PregelNode\<close> and its \<^verbatim>\<open>|\<close> operator live in
  \<^verbatim>\<open>langgraph/pregel/read.py\<close>, which is not among the sources. The spec describes a lowered
  unit as a trigger channel set, an action and a writer set, where an edge to the terminal
  identifier adds a writer on the unit and a branch attaches an additional writer stage:
  piping a unit into a writer appends the writer to the unit's writers, and piping it into
  anything else makes that its action.
\<close>

definition pipe_writer :: "('a, 'i) PregelNode \<Rightarrow> 'i writer \<Rightarrow> ('a, 'i) PregelNode" where
  "pipe_writer n w = n\<lparr>writers := writers n @ [w]\<rparr>"

text \<open>
  Modelled from the spec: the \<^verbatim>\<open>|\<close> operator of \<^verbatim>\<open>PregelNode\<close> (in
  \<^verbatim>\<open>langgraph/pregel/read.py\<close>, not among the sources) applied to a node action: by the
  spec a lowered unit has one action, the declared node.
\<close>

definition pipe_action :: "('a, 'i) PregelNode \<Rightarrow> 'a \<Rightarrow> ('a, 'i) PregelNode" where
  "pipe_action n a = n\<lparr>bound := Some a\<rparr>"

text \<open>
  Modelled from the spec: \<^verbatim>\<open>Channel.subscribe_to\<close> lives in \<^verbatim>\<open>langgraph/pregel\<close>, which is
  not among the sources. By the spec the entry channel is the seed of the units that
  declare it as a trigger: the unit subscribed to one channel reads that channel and is
  triggered by it, and has no action and no writer yet.
\<close>

definition subscribe_to :: "string \<Rightarrow> ('a, 'i) PregelNode" where
  "subscribe_to ch = \<lparr>channels = [ch], triggers = [ch], bound = None, writers = []\<rparr>"

definition attach_node :: "string \<Rightarrow> 'a \<Rightarrow> ('a, 'i) CompiledGraph \<Rightarrow> ('a, 'i) CompiledGraph" where
  "attach_node key node self =
     self\<lparr>cg_channels := AList.update key EphemeralValue (cg_channels self),
          cg_nodes := AList.update key
            (pipe_writer
               (pipe_action \<lparr>channels = [], triggers = [], bound = None, writers = []\<rparr> node)
               (ChannelWrite [key]))
            (cg_nodes self),
          stream_channels := stream_channels self @ [key]\<rparr>"

definition attach_edge :: "string \<Rightarrow> string \<Rightarrow> ('a, 'i) CompiledGraph
    \<Rightarrow> error + ('a, 'i) CompiledGraph" where
  "attach_edge start end_key self =
     (if end_key = END then
        (case map_of (cg_nodes self) start of
           None \<Rightarrow> Inl (KeyError start)
         | Some n \<Rightarrow>
             Inr (self\<lparr>cg_nodes :=
                    AList.update start (n\<lparr>writers := writers n @ [ChannelWrite [END]]\<rparr>)
                      (cg_nodes self)\<rparr>))
      else
        (case map_of (cg_nodes self) end_key of
           None \<Rightarrow> Inl (KeyError end_key)
         | Some n \<Rightarrow>
             Inr (self\<lparr>cg_nodes :=
                    AList.update end_key
                      (n\<lparr>triggers := triggers n @ [start], channels := channels n @ [start]\<rparr>)
                      (cg_nodes self)\<rparr>)))"

definition branch_channel :: "string \<Rightarrow> string \<Rightarrow> string \<Rightarrow> string" where
  "branch_channel start nm end_key = ''branch:'' @ start @ '':'' @ nm @ '':'' @ end_key"

text \<open>
  \<^verbatim>\<open>branch_writer\<close> always returns a \<^verbatim>\<open>ChannelWrite\<close> object, which is truthy, so that
  \<^verbatim>\<open>writer(destinations) or input\<close> is that object.
\<close>

definition branch_writer :: "string \<Rightarrow> string \<Rightarrow> string list \<Rightarrow> string list option" where
  "branch_writer start nm es =
     Some (map (\<lambda>e. if e \<noteq> END then branch_channel start nm e else END) es)"

definition attach_branch_reader :: "string \<Rightarrow> string \<Rightarrow> string \<Rightarrow> ('a, 'i) CompiledGraph
    \<Rightarrow> error + ('a, 'i) CompiledGraph" where
  "attach_branch_reader start nm end_key self =
     (if end_key \<noteq> END then
        (let channel_name = branch_channel start nm end_key;
             self1 = self\<lparr>cg_channels := AList.update channel_name EphemeralValue (cg_channels self)\<rparr>
         in case map_of (cg_nodes self1) end_key of
              None \<Rightarrow> Inl (KeyError end_key)
            | Some n \<Rightarrow>
                Inr (self1\<lparr>cg_nodes :=
                       AList.update end_key
                         (n\<lparr>triggers := triggers n @ [channel_name],
                            channels := channels n @ [channel_name]\<rparr>)
                         (cg_nodes self1)\<rparr>))
      else Inr self)"

text \<open>The hidden start unit, added when a branch starts at the entry identifier.\<close>

definition add_hidden_start :: "string \<Rightarrow> ('a, 'i) CompiledGraph \<Rightarrow> ('a, 'i) CompiledGraph" where
  "add_hidden_start start self =
     (if start = START \<and> start \<notin> set (map fst (cg_nodes self))
      then self\<lparr>cg_nodes := AList.update start (subscribe_to START) (cg_nodes self)\<rparr>
      else self)"

text \<open>
  The local \<^verbatim>\<open>ends\<close> of \<^verbatim>\<open>attach_branch\<close>: the values of \<^verbatim>\<open>branch.ends\<close> when that is truthy
  (neither \<^verbatim>\<open>None\<close> nor empty), else the keys of the compiled graph's own \<^verbatim>\<open>nodes\<close>.
\<close>

definition reader_ends :: "'i Branch \<Rightarrow> ('a, 'i) CompiledGraph \<Rightarrow> string list" where
  "reader_ends branch self =
     (case ends branch of
        None \<Rightarrow> map fst (cg_nodes self)
      | Some m \<Rightarrow> if m \<noteq> [] then map snd m else map fst (cg_nodes self))"

definition attach_branch_writer :: "string \<Rightarrow> string \<Rightarrow> 'i Branch \<Rightarrow> ('a, 'i) PregelNode
    \<Rightarrow> ('a, 'i) CompiledGraph \<Rightarrow> ('a, 'i) CompiledGraph" where
  "attach_branch_writer start nm branch n self =
     self\<lparr>cg_nodes := AList.update start (pipe_writer n (BranchRoute start nm branch)) (cg_nodes self)\<rparr>"

definition attach_branch :: "string \<Rightarrow> string \<Rightarrow> 'i Branch \<Rightarrow> ('a, 'i) CompiledGraph
    \<Rightarrow> error + ('a, 'i) CompiledGraph" where
  "attach_branch start nm branch self =
     (let self1 = add_hidden_start start self
      in case map_of (cg_nodes self1) start of
           None \<Rightarrow> Inl (KeyError start)
         | Some n \<Rightarrow>
             (let self2 = attach_branch_writer start nm branch n self1
              in fold_raise (attach_branch_reader start nm) (reader_ends branch self2) self2))"

text \<open>
  Modelled from the spec: \<^verbatim>\<open>ChannelWrite\<close> and \<^verbatim>\<open>RunnableCallable\<close> live in
  \<^verbatim>\<open>langgraph/pregel/write.py\<close> and \<^verbatim>\<open>langgraph/utils.py\<close>, which are not among the
  sources. By the spec the writer stage of a branch invokes the path function, resolves
  the labels and publishes to the channels of the resolved targets. So the channels a
  writer stage writes when the runner invokes it on an input are: for a \<^verbatim>\<open>ChannelWrite\<close>
  its channels; for the branch stage those of the \<^verbatim>\<open>ChannelWrite\<close> that \<^verbatim>\<open>_route\<close> returned.
\<close>

definition run_writer :: "'i writer \<Rightarrow> 'i \<Rightarrow> error + string list" where
  "run_writer w input =
     (case w of
        ChannelWrite cs \<Rightarrow> Inr cs
      | BranchRoute start nm branch \<Rightarrow>
          (case route branch (branch_writer start nm) input of
             Inl e \<Rightarrow> Inl e
           | Inr (Write cs) \<Rightarrow> Inr cs
           | Inr (Passthrough _) \<Rightarrow> Inr []))"

subsection \<open>compile\<close>

definition compiled_init :: "string list \<Rightarrow> string list \<Rightarrow> ('a, 'i) CompiledGraph" where
  "compiled_init interrupt_before interrupt_after =
     \<lparr>cg_nodes = [], cg_channels = [(START, EphemeralValue), (END, EphemeralValue)],
      stream_channels = [], interrupt_before_nodes = interrupt_before,
      interrupt_after_nodes = interrupt_after\<rparr>"

text \<open>The three attach loops of \<^verbatim>\<open>compile\<close>, on the empty compiled graph.\<close>

definition attach_all :: "string list \<Rightarrow> string list \<Rightarrow> ('a, 'i) Graph
    \<Rightarrow> error + ('a, 'i) CompiledGraph" where
  "attach_all interrupt_before interrupt_after self =
     (let c1 = fold (\<lambda>(key, node). attach_node key node) (nodes self)
                 (compiled_init interrupt_before interrupt_after)
      in case fold_raise (\<lambda>(start, end_key). attach_edge start end_key) (edges self) c1 of
           Inl e \<Rightarrow> Inl e
         | Inr c2 \<Rightarrow>
             fold_raise (\<lambda>(start, nm, branch). attach_branch start nm branch) (branch_items self) c2)"

text \<open>
  \<^verbatim>\<open>Pregel.validate\<close>, the last call of \<^verbatim>\<open>compile\<close>, is not among the sources and the spec
  keeps the runner out of scope. It is the parameter \<open>pregel_validate\<close>: a check of the
  compiled graph that raises or returns the graph it was called on.
\<close>

definition compile :: "(('a, 'i) CompiledGraph \<Rightarrow> error option) \<Rightarrow> string list \<Rightarrow> string list
    \<Rightarrow> ('a, 'i) Graph \<Rightarrow> (('a, 'i) CompiledGraph, ('a, 'i) Graph) outcome" where
  "compile pregel_validate interrupt_before interrupt_after self =
     (let v = validate (interrupt_before @ interrupt_after) self in
      case result v of
        Inl e \<Rightarrow> \<lparr>result = Inl e, warnings = [], state = state v\<rparr>
      | Inr _ \<Rightarrow>
          (case attach_all interrupt_before interrupt_after (state v) of
             Inl e \<Rightarrow> \<lparr>result = Inl e, warnings = [], state = state v\<rparr>
           | Inr c \<Rightarrow>
               (case pregel_validate c of
                  Some e \<Rightarrow> \<lparr>result = Inl e, warnings = [], state = state v\<rparr>
                | None \<Rightarrow> \<lparr>result = Inr c, warnings = [], state = state v\<rparr>)))"

text \<open>Reading a compiled graph: the trigger list and the writer stages of the unit of a node.\<close>

definition unit_triggers :: "('a, 'i) CompiledGraph \<Rightarrow> string \<Rightarrow> string list" where
  "unit_triggers c u = (case map_of (cg_nodes c) u of None \<Rightarrow> [] | Some n \<Rightarrow> triggers n)"

definition unit_writers :: "('a, 'i) CompiledGraph \<Rightarrow> string \<Rightarrow> 'i writer list" where
  "unit_writers c u = (case map_of (cg_nodes c) u of None \<Rightarrow> [] | Some n \<Rightarrow> writers n)"

subsection \<open>Example builders\<close>

definition ex_path :: "unit Runnable" where
  "ex_path = \<lparr>name = None, invoke = (\<lambda>_. Label ''x'')\<rparr>"

definition ex_declared :: "(nat, unit) Graph" where
  "ex_declared =
     state (add_conditional_edges ''A'' ex_path None None
       (state (add_edge START ''A'' (state (add_node ''A'' 0 Graph_init)))))"

definition ex_unknown_source :: "(nat, unit) Graph" where
  "ex_unknown_source =
     state (add_edge ''X'' ''A'' (state (add_edge ''A'' END
       (state (add_edge START ''A'' (state (add_node ''A'' 0 Graph_init)))))))"

definition ex_no_nodes :: "(nat, unit) Graph" where
  "ex_no_nodes = state (add_edge START END Graph_init)"

definition ex_xy_branch :: "unit Branch" where
  "ex_xy_branch = \<lparr>path = ex_path, ends = Some [(''x'', ''A''), (''y'', ''B'')], then_node = None\<rparr>"

definition ex_units :: "(nat, unit) CompiledGraph" where
  "ex_units = attach_node ''B'' 2 (attach_node ''A'' 1 (attach_node ''S'' 0 (compiled_init [] [])))"

definition ex_branch_no_then :: "(nat, unit) Graph" where
  "ex_branch_no_then =
     state (add_conditional_edges ''A'' ex_path None None
       (state (add_edge START ''A''
         (state (add_node ''B'' 1 (state (add_node ''A'' 0 Graph_init)))))))"

definition ex_branch_then :: "(nat, unit) Graph" where
  "ex_branch_then =
     state (add_conditional_edges ''S'' ex_path None (Some ''T'')
       (state (add_edge ''T'' END (state (add_edge START ''S''
         (state (add_node ''T'' 2 (state (add_node ''A'' 1 (state (add_node ''S'' 0 Graph_init)))))))))))"

text \<open>
  The builder of the chain entry \<open>\<rightarrow>\<close> \<open>A\<close> \<open>\<rightarrow>\<close> \<open>B\<close> \<open>\<rightarrow>\<close> terminal, declared call by call, and the
  compiled graph expected for it.
\<close>

definition chain_graph :: "string \<Rightarrow> string \<Rightarrow> 'a \<Rightarrow> 'a \<Rightarrow> ('a, 'i) Graph" where
  "chain_graph A B a b =
     state (add_edge B END (state (add_edge A B (state (add_edge START A
       (state (add_node B b (state (add_node A a Graph_init)))))))))"

definition chain_plan :: "string \<Rightarrow> string \<Rightarrow> 'a \<Rightarrow> 'a \<Rightarrow> ('a, 'i) CompiledGraph" where
  "chain_plan A B a b =
     \<lparr>cg_nodes =
        [(A, \<lparr>channels = [START], triggers = [START], bound = Some a, writers = [ChannelWrite [A]]\<rparr>),
         (B, \<lparr>channels = [A], triggers = [A], bound = Some b,
              writers = [ChannelWrite [B], ChannelWrite [END]]\<rparr>)],
      cg_channels = [(START, EphemeralValue), (END, EphemeralValue), (A, EphemeralValue), (B, EphemeralValue)],
      stream_channels = [A, B], interrupt_before_nodes = [], interrupt_after_nodes = []\<rparr>"

definition ex_ab_path :: "unit Runnable" where
  "ex_ab_path = \<lparr>name = None, invoke = (\<lambda>_. Label ''a'')\<rparr>"

definition ex_converge :: "(nat, unit) Graph" where
  "ex_converge =
     state (add_conditional_edges ''S'' ex_ab_path (Some [(''a'', ''A''), (''b'', ''B'')]) (Some ''T'')
       (state (add_edge ''T'' END (state (add_edge START ''S''
         (state (add_node ''T'' 3 (state (add_node ''B'' 2 (state (add_node ''A'' 1
           (state (add_node ''S'' 0 Graph_init)))))))))))))"

definition ex_self_branch :: "(nat, unit) Graph" where
  "ex_self_branch =
     state (add_conditional_edges ''S'' ex_path None None
       (state (add_edge ''A'' END (state (add_edge START ''S''
         (state (add_node ''A'' 1 (state (add_node ''S'' 0 Graph_init)))))))))"


subsection \<open>Replacing the routing functions\<close>

text \<open>
  To state that a call does not depend on what the routing functions return, these
  functions replace the \<^verbatim>\<open>invoke\<close> of every path in a builder, and in a compiled graph, by
  one function \<open>f\<close>; names, \<^verbatim>\<open>ends\<close> and \<^verbatim>\<open>then\<close> stay.
\<close>

definition with_invoke :: "('i \<Rightarrow> path_result) \<Rightarrow> 'i Branch \<Rightarrow> 'i Branch" where
  "with_invoke f b = b\<lparr>path := (path b)\<lparr>invoke := f\<rparr>\<rparr>"

definition reroute_graph :: "('i \<Rightarrow> path_result) \<Rightarrow> ('a, 'i) Graph \<Rightarrow> ('a, 'i) Graph" where
  "reroute_graph f g =
     g\<lparr>branches := map (\<lambda>(s, bs). (s, map (\<lambda>(n, b). (n, with_invoke f b)) bs)) (branches g)\<rparr>"

definition reroute_writer :: "('i \<Rightarrow> path_result) \<Rightarrow> 'i writer \<Rightarrow> 'i writer" where
  "reroute_writer f w =
     (case w of ChannelWrite cs \<Rightarrow> ChannelWrite cs
      | BranchRoute s n b \<Rightarrow> BranchRoute s n (with_invoke f b))"

definition reroute_unit :: "('i \<Rightarrow> path_result) \<Rightarrow> ('a, 'i) PregelNode \<Rightarrow> ('a, 'i) PregelNode" where
  "reroute_unit f n = n\<lparr>writers := map (reroute_writer f) (writers n)\<rparr>"

definition reroute_plan :: "('i \<Rightarrow> path_result) \<Rightarrow> ('a, 'i) CompiledGraph \<Rightarrow> ('a, 'i) CompiledGraph" where
  "reroute_plan f c = c\<lparr>cg_nodes := map (\<lambda>(k, n). (k, reroute_unit f n)) (cg_nodes c)\<rparr>"

definition ex_z_path :: "unit Runnable" where
  "ex_z_path = \<lparr>name = None, invoke = (\<lambda>_. Label ''z'')\<rparr>"

definition ex_z_branch :: "unit Branch" where
  "ex_z_branch = \<lparr>path = ex_z_path, ends = Some [(''x'', ''A''), (''y'', ''B'')], then_node = None\<rparr>"

definition ex_unknown_label :: "(nat, unit) Graph" where
  "ex_unknown_label =
     state (add_conditional_edges ''S'' ex_z_path (Some [(''x'', ''A''), (''y'', ''B'')]) None
       (state (add_edge ''B'' END (state (add_edge ''A'' END (state (add_edge START ''S''
         (state (add_node ''B'' 2 (state (add_node ''A'' 1
           (state (add_node ''S'' 0 Graph_init)))))))))))))"

definition ex_empty_ends :: "unit Branch" where
  "ex_empty_ends = \<lparr>path = ex_path, ends = Some [], then_node = None\<rparr>"

subsection \<open>Plain names\<close>




subsection \<open>Objects and references\<close>

text \<open>
  The builder and the compiled graph are objects that refer to their containers.
  \<^verbatim>\<open>Graph.__init__\<close> creates \<^verbatim>\<open>self.nodes = {}\<close>, \<^verbatim>\<open>self.edges = set()\<close> and
  \<^verbatim>\<open>self.branches = defaultdict(dict)\<close>; \<^verbatim>\<open>compile\<close> calls
  \<^verbatim>\<open>CompiledGraph(graph=self, nodes={}, channels={START: ..., END: ...}, stream_channels=[], ...)\<close>
  and the \<^verbatim>\<open>attach_\<close> methods then fill these three containers. Whether a later call on the
  builder reaches the compiled graph depends on which objects the two share, so here the
  containers live in a heap: a list of objects, in which a reference is an index and a new
  object is appended at the end.

  A \<^verbatim>\<open>dict\<close> object holds values of any of the kinds the program stores in dictionaries, so
  the \<^verbatim>\<open>nodes\<close> of a builder and the \<^verbatim>\<open>nodes\<close> of a compiled graph are objects of one kind
  and could be one object. The inner dictionaries of \<^verbatim>\<open>branches\<close> are reached only through
  \<^verbatim>\<open>self.branches[source]\<close> (\<^verbatim>\<open>compile\<close> iterates over their items and hands each
  \<^verbatim>\<open>Branch\<close> to \<^verbatim>\<open>attach_branch\<close>), and are kept as values of the \<^verbatim>\<open>defaultdict\<close> object.
  Runnables, branches and lowered units are immutable values for the methods modelled here.
\<close>

datatype ('a, 'i) pyval =
    Runnable_val 'a
  | Unit_val "('a, 'i) PregelNode"
  | Channel_val channel

datatype ('a, 'i) obj =
    Dict "(string \<times> ('a, 'i) pyval) list"
  | Defaultdict "(string \<times> (string \<times> 'i Branch) list) list"
  | Set_obj "(string \<times> string) list"
  | List_obj "string list"
  | Graph_object nat nat nat bool bool
  | CompiledGraph_object nat nat nat nat "string list" "string list"

text \<open>
  \<open>Graph_object nodes edges branches support_multiple_edges compiled\<close> and
  \<open>CompiledGraph_object graph nodes channels stream_channels interrupt_before_nodes
  interrupt_after_nodes\<close>: the attributes that are containers are references.
\<close>

type_synonym ('a, 'i) heap = "('a, 'i) obj list"

definition heap_get :: "('a, 'i) heap \<Rightarrow> nat \<Rightarrow> ('a, 'i) obj option" where
  "heap_get h r = (if r < length h then Some (h ! r) else None)"

fun the_runnable :: "('a, 'i) pyval \<Rightarrow> 'a option" where
  "the_runnable (Runnable_val a) = Some a"
| "the_runnable _ = None"



fun unwrap_all :: "('v \<Rightarrow> 'x option) \<Rightarrow> (string \<times> 'v) list \<Rightarrow> (string \<times> 'x) list option" where
  "unwrap_all f [] = Some []"
| "unwrap_all f ((k, v) # kvs) =
     (case f v of
        None \<Rightarrow> None
      | Some x \<Rightarrow> (case unwrap_all f kvs of None \<Rightarrow> None | Some xs \<Rightarrow> Some ((k, x) # xs)))"

definition wrap_all :: "('x \<Rightarrow> 'v) \<Rightarrow> (string \<times> 'x) list \<Rightarrow> (string \<times> 'v) list" where
  "wrap_all w al = map (\<lambda>(k, x). (k, w x)) al"

fun read_dict :: "(('a, 'i) pyval \<Rightarrow> 'x option) \<Rightarrow> ('a, 'i) obj option \<Rightarrow> (string \<times> 'x) list option" where
  "read_dict f (Some (Dict d)) = unwrap_all f d"
| "read_dict f _ = None"

fun read_defaultdict :: "('a, 'i) obj option \<Rightarrow> (string \<times> (string \<times> 'i Branch) list) list option" where
  "read_defaultdict (Some (Defaultdict d)) = Some d"
| "read_defaultdict _ = None"

fun read_set :: "('a, 'i) obj option \<Rightarrow> (string \<times> string) list option" where
  "read_set (Some (Set_obj s)) = Some s"
| "read_set _ = None"


text \<open>
  The builder that a reference denotes, read through the references of its attributes;
  \<open>None\<close> when the reference or one of the attributes is not an object of the expected kind.
\<close>

fun load_graph_object :: "('a, 'i) heap \<Rightarrow> ('a, 'i) obj option \<Rightarrow> ('a, 'i) Graph option" where
  "load_graph_object h (Some (Graph_object rn re rb m cp)) =
     (case read_dict the_runnable (heap_get h rn) of
        None \<Rightarrow> None
      | Some ns \<Rightarrow>
          (case read_set (heap_get h re) of
             None \<Rightarrow> None
           | Some es \<Rightarrow>
               (case read_defaultdict (heap_get h rb) of
                  None \<Rightarrow> None
                | Some bs \<Rightarrow>
                    Some \<lparr>nodes = ns, edges = es, branches = bs,
                          support_multiple_edges = m, compiled = cp\<rparr>)))"
| "load_graph_object h _ = None"

definition load_graph :: "('a, 'i) heap \<Rightarrow> nat \<Rightarrow> ('a, 'i) Graph option" where
  "load_graph h self = load_graph_object h (heap_get h self)"





text \<open>\<^verbatim>\<open>Graph.__init__\<close>: three new containers and the object that refers to them.\<close>

definition Graph_new :: "('a, 'i) heap \<Rightarrow> nat \<times> ('a, 'i) heap" where
  "Graph_new h =
     (let r = length h
      in (r + 3, h @ [Dict [], Set_obj [], Defaultdict [], Graph_object r (r + 1) (r + 2) False False]))"

text \<open>
  The methods of the builder, on a reference. Each runs the method on the builder that
  \<open>self\<close> denotes and stores what the method assigns: \<^verbatim>\<open>self.nodes[key] = action\<close> changes
  the object that \<^verbatim>\<open>self.nodes\<close> refers to, \<^verbatim>\<open>self.edges.add(...)\<close> the object that
  \<^verbatim>\<open>self.edges\<close> refers to, and \<^verbatim>\<open>self.branches[source]\<close> (a \<^verbatim>\<open>defaultdict\<close> read, which
  may insert, also before a raise) and \<^verbatim>\<open>self.branches[source][name] = Branch(...)\<close> the
  object that \<^verbatim>\<open>self.branches\<close> refers to. The result is \<open>None\<close> when \<open>self\<close> does not denote
  a builder.
\<close>

fun Graph_add_node_object :: "string \<Rightarrow> 'a \<Rightarrow> ('a, 'i) heap \<Rightarrow> ('a, 'i) Graph option
    \<Rightarrow> ('a, 'i) obj option \<Rightarrow> (unit, ('a, 'i) heap) outcome option" where
  "Graph_add_node_object key action h (Some g) (Some (Graph_object rn re rb m cp)) =
     (let out = add_node key action g
      in Some \<lparr>result = result out, warnings = warnings out,
               state = (case result out of
                          Inl e \<Rightarrow> h
                        | Inr _ \<Rightarrow> h[rn := Dict (wrap_all Runnable_val (nodes (state out)))])\<rparr>)"
| "Graph_add_node_object key action h _ _ = None"

definition Graph_add_node :: "nat \<Rightarrow> string \<Rightarrow> 'a \<Rightarrow> ('a, 'i) heap
    \<Rightarrow> (unit, ('a, 'i) heap) outcome option" where
  "Graph_add_node self key action h =
     Graph_add_node_object key action h (load_graph h self) (heap_get h self)"

fun Graph_add_edge_object :: "string \<Rightarrow> string \<Rightarrow> ('a, 'i) heap \<Rightarrow> ('a, 'i) Graph option
    \<Rightarrow> ('a, 'i) obj option \<Rightarrow> (unit, ('a, 'i) heap) outcome option" where
  "Graph_add_edge_object start_key end_key h (Some g) (Some (Graph_object rn re rb m cp)) =
     (let out = add_edge start_key end_key g
      in Some \<lparr>result = result out, warnings = warnings out,
               state = (case result out of
                          Inl e \<Rightarrow> h
                        | Inr _ \<Rightarrow> h[re := Set_obj (edges (state out))])\<rparr>)"
| "Graph_add_edge_object start_key end_key h _ _ = None"

definition Graph_add_edge :: "nat \<Rightarrow> string \<Rightarrow> string \<Rightarrow> ('a, 'i) heap
    \<Rightarrow> (unit, ('a, 'i) heap) outcome option" where
  "Graph_add_edge self start_key end_key h =
     Graph_add_edge_object start_key end_key h (load_graph h self) (heap_get h self)"

fun Graph_add_conditional_edges_object :: "string \<Rightarrow> 'i Runnable \<Rightarrow> (string \<times> string) list option
    \<Rightarrow> string option \<Rightarrow> ('a, 'i) heap \<Rightarrow> ('a, 'i) Graph option
    \<Rightarrow> ('a, 'i) obj option \<Rightarrow> (unit, ('a, 'i) heap) outcome option" where
  "Graph_add_conditional_edges_object source p path_map thn h (Some g)
       (Some (Graph_object rn re rb m cp)) =
     (let out = add_conditional_edges source p path_map thn g
      in Some \<lparr>result = result out, warnings = warnings out,
               state = h[rb := Defaultdict (branches (state out))]\<rparr>)"
| "Graph_add_conditional_edges_object source p path_map thn h _ _ = None"

definition Graph_add_conditional_edges :: "nat \<Rightarrow> string \<Rightarrow> 'i Runnable
    \<Rightarrow> (string \<times> string) list option \<Rightarrow> string option \<Rightarrow> ('a, 'i) heap
    \<Rightarrow> (unit, ('a, 'i) heap) outcome option" where
  "Graph_add_conditional_edges self source p path_map thn h =
     Graph_add_conditional_edges_object source p path_map thn h (load_graph h self) (heap_get h self)"





section \<open>Properties\<close>

subsection \<open>Loops and sets\<close>

lemma START_neq_END: "START \<noteq> END"
  by (simp add: START_def END_def)

lemma first_raise_SomeD: "first_raise f xs = Some e \<Longrightarrow> \<exists>x\<in>set xs. f x = Some e"
  by (induction xs) (auto split: option.splits)

lemma first_raise_None_iff: "first_raise f xs = None \<longleftrightarrow> (\<forall>x\<in>set xs. f x = None)"
  by (induction xs) (auto split: option.splits)

lemma fold_raise_InlD: "fold_raise f xs s = Inl e \<Longrightarrow> \<exists>x\<in>set xs. \<exists>s'. f x s' = Inl e"
  by (induction xs arbitrary: s) (auto split: sum.splits)

lemma fold_raise_invariant:
  assumes "fold_raise f xs s = Inr s'" and "P s"
    and "\<And>x t t'. x \<in> set xs \<Longrightarrow> P t \<Longrightarrow> f x t = Inr t' \<Longrightarrow> P t'"
  shows "P s'"
  using assms
proof (induction xs arbitrary: s)
  case Nil
  then show ?case by simp
next
  case (Cons a xs)
  from Cons.prems(1) obtain t where t: "f a s = Inr t" "fold_raise f xs t = Inr s'"
    by (auto split: sum.splits)
  have "P t"
    using Cons.prems(3)[of a s t] Cons.prems(2) t(1) by simp
  show ?case
    by (rule Cons.IH[OF t(2) \<open>P t\<close>]) (use Cons.prems(3) in auto)
qed

lemma set_fold_set_add: "set (fold set_add xs acc) = set xs \<union> set acc"
  by (induction xs arbitrary: acc) (auto simp: set_add_def)

lemmas builder_defs = add_node_def add_edge_def add_conditional_edges_def Graph_init_def
  defaultdict_touch_def defaultdict_get_def branch_name_def set_add_def Let_def START_def END_def

subsection \<open>Declaration errors\<close>

lemma defaultdict_raise_untouched:
  "nm \<in> set (map fst (defaultdict_get (defaultdict_touch source bs) source))
   \<Longrightarrow> defaultdict_touch source bs = bs"
  by (auto simp: defaultdict_get_def defaultdict_touch_def update_conv' split: option.splits)

lemma ex_declared_eq: "ex_declared = \<lparr>nodes = [(''A'', 0)], edges = [(START, ''A'')],
   branches = [(''A'', [(''condition'', \<lparr>path = ex_path, ends = None, then_node = None\<rparr>)])],
   support_multiple_edges = False, compiled = False\<rparr>"
  by (simp add: ex_declared_def builder_defs ex_path_def)

text \<open>
  Claim C8. Whenever \<open>add_node\<close>, \<open>add_edge\<close> or \<open>add_conditional_edges\<close> raises, the
  builder after the call is the builder before it: nodes, edges and branches (and the two
  flags) are untouched. For \<open>add_conditional_edges\<close> this needs the observation that the
  \<^verbatim>\<open>defaultdict\<close> read, which can insert an empty dictionary, inserts nothing on the path
  that raises, since a name can only be found in a dictionary that was already there.
\<close>

theorem failed_declaration_leaves_builder:
  "(result (add_node key action g) = Inl e1 \<longrightarrow> state (add_node key action g) = g) \<and>
   (result (add_edge start_key end_key g) = Inl e2 \<longrightarrow> state (add_edge start_key end_key g) = g) \<and>
   (result (add_conditional_edges source p path_map thn g) = Inl e3 \<longrightarrow>
      state (add_conditional_edges source p path_map thn g) = g)"
proof (intro conjI impI)
  assume "result (add_node key action g) = Inl e1"
  then show "state (add_node key action g) = g"
    by (auto simp: add_node_def Let_def split: if_splits)
next
  assume "result (add_edge start_key end_key g) = Inl e2"
  then show "state (add_edge start_key end_key g) = g"
    by (auto simp: add_edge_def Let_def split: if_splits)
next
  assume r: "result (add_conditional_edges source p path_map thn g) = Inl e3"
  then have "branch_name p \<in> set (map fst (defaultdict_get (defaultdict_touch source (branches g)) source))"
    by (simp add: add_conditional_edges_def Let_def split: if_splits)
  then have "defaultdict_touch source (branches g) = branches g"
    by (rule defaultdict_raise_untouched)
  with r show "state (add_conditional_edges source p path_map thn g) = g"
    by (auto simp: add_conditional_edges_def Let_def split: if_splits)
qed

theorem failed_declaration_leaves_builder_witness:
  "result (add_node ''A'' 1 ex_declared) = Inl (NodeAlreadyPresent ''A'') \<and>
   state (add_node ''A'' 1 ex_declared) = ex_declared \<and>
   result (add_edge START ''B'' ex_declared) = Inl (AlreadyFoundPath START) \<and>
   state (add_edge START ''B'' ex_declared) = ex_declared \<and>
   result (add_conditional_edges ''A'' ex_path None None ex_declared)
     = Inl (BranchAlreadyExists None ''A'') \<and>
   state (add_conditional_edges ''A'' ex_path None None ex_declared) = ex_declared"
proof -
  have r1: "result (add_node ''A'' 1 ex_declared) = Inl (NodeAlreadyPresent ''A'')"
    by (simp add: ex_declared_eq add_node_def)
  have r2: "result (add_edge START ''B'' ex_declared) = Inl (AlreadyFoundPath START)"
    by (simp add: ex_declared_eq add_edge_def START_def END_def)
  have r3: "result (add_conditional_edges ''A'' ex_path None None ex_declared)
              = Inl (BranchAlreadyExists None ''A'')"
    by (simp add: ex_declared_eq add_conditional_edges_def defaultdict_touch_def
          defaultdict_get_def branch_name_def ex_path_def)
  from failed_declaration_leaves_builder[of "''A''" 1 ex_declared "NodeAlreadyPresent ''A''"
         START "''B''" "AlreadyFoundPath START"
         "''A''" ex_path None None "BranchAlreadyExists None ''A''"] r1 r2 r3
  show ?thesis by simp
qed

subsection \<open>The check of the sources in validate\<close>

lemma source_check_bound:
  "ks \<noteq> [] \<Longrightarrow> first_raise (source_check ks (node_after_loop ks)) srcs = None"
  by (simp add: first_raise_None_iff source_check_def node_after_loop_def)

lemma source_check_unbound:
  "srcs \<noteq> [] \<Longrightarrow>
   first_raise (source_check [] (node_after_loop [])) srcs = Some (UnboundLocalError ''node'')"
  by (cases srcs) (simp_all add: source_check_def node_after_loop_def)

lemma targets_of_branch_raises:
  "targets_of_branch ks item acc = Inl e \<Longrightarrow> \<exists>a b c. e = BranchUnknownTarget a b c"
  by (auto simp: targets_of_branch_def Let_def
           split: prod.splits option.splits if_splits dest!: fold_raise_InlD)

lemma all_targets_raises: "all_targets g = Inl e \<Longrightarrow> \<exists>a b c. e = BranchUnknownTarget a b c"
  unfolding all_targets_def by (auto dest!: fold_raise_InlD targets_of_branch_raises)

lemma ex_unknown_source_eq: "ex_unknown_source = \<lparr>nodes = [(''A'', 0)],
   edges = [(START, ''A''), (''A'', END), (''X'', ''A'')], branches = [],
   support_multiple_edges = False, compiled = False\<rparr>"
  by (simp add: ex_unknown_source_def builder_defs)

lemma ex_no_nodes_eq: "ex_no_nodes = \<lparr>nodes = [], edges = [(START, END)], branches = [],
   support_multiple_edges = False, compiled = False\<rparr>"
  by (simp add: ex_no_nodes_def builder_defs)

text \<open>
  Claim C10. For a builder with at least one declared node that passes the dead-end
  check, \<open>validate\<close> never raises the error for an edge starting at an unknown node,
  whatever the sources are: the loop over the sources tests the variable \<^verbatim>\<open>node\<close>, which
  the loop before it left at the last declared node, and a declared node is never
  unknown. With no declared node and some source, that variable was never bound and
  \<open>validate\<close> fails with the interpreter's unbound-variable error.
\<close>

theorem source_check_tests_stale_node:
  "(nodes g \<noteq> [] \<longrightarrow> dead_end_check g = None \<longrightarrow>
      result (validate interrupt g) \<noteq> Inl (EdgeStartingAtUnknownNode source)) \<and>
   (nodes g = [] \<longrightarrow> all_sources g \<noteq> [] \<longrightarrow>
      result (validate interrupt g) = Inl (UnboundLocalError ''node''))"
proof (intro conjI impI)
  assume ne: "nodes g \<noteq> []" and de: "dead_end_check g = None"
  have sc: "first_raise (source_check (map fst (nodes g)) (node_after_loop (map fst (nodes g))))
              (all_sources g) = None"
    using ne by (simp add: source_check_bound)
  show "result (validate interrupt g) \<noteq> Inl (EdgeStartingAtUnknownNode source)"
  proof
    assume "result (validate interrupt g) = Inl (EdgeStartingAtUnknownNode source)"
    then have "validate_raises interrupt g = Some (EdgeStartingAtUnknownNode source)"
      by (simp add: validate_def split: option.splits)
    then show False
      using sc de
      by (auto simp: validate_raises_def Let_def or_else_def
               split: option.splits sum.splits if_splits
               dest!: first_raise_SomeD all_targets_raises)
  qed
next
  assume "nodes g = []" and "all_sources g \<noteq> []"
  then show "result (validate interrupt g) = Inl (UnboundLocalError ''node'')"
    by (simp add: validate_def validate_raises_def dead_end_check_def Let_def or_else_def
          source_check_unbound)
qed

theorem source_check_tests_stale_node_witness:
  "nodes ex_unknown_source \<noteq> [] \<and> dead_end_check ex_unknown_source = None \<and>
   (''X'', ''A'') \<in> set (edges ex_unknown_source) \<and>
   ''X'' \<notin> set (map fst (nodes ex_unknown_source)) \<and> ''X'' \<noteq> START \<and>
   result (validate [] ex_unknown_source) \<noteq> Inl (EdgeStartingAtUnknownNode ''X'') \<and>
   nodes ex_no_nodes = [] \<and> all_sources ex_no_nodes \<noteq> [] \<and>
   result (validate [] ex_no_nodes) = Inl (UnboundLocalError ''node'')"
proof -
  have a: "nodes ex_unknown_source \<noteq> []" and b: "dead_end_check ex_unknown_source = None"
    by (simp_all add: ex_unknown_source_eq dead_end_check_def all_sources_def branch_items_def
          set_add_def START_def)
  have c: "nodes ex_no_nodes = []" and d: "all_sources ex_no_nodes \<noteq> []"
    by (simp_all add: ex_no_nodes_eq all_sources_def branch_items_def set_add_def)
  from source_check_tests_stale_node[of ex_unknown_source "[]" "''X''"]
       source_check_tests_stale_node[of ex_no_nodes "[]"] a b c d
  show ?thesis by (simp add: ex_unknown_source_eq START_def)
qed

subsection \<open>The branch writer\<close>

lemma attach_branch_InrD:
  assumes "attach_branch start nm b c = Inr c'"
  obtains n where "map_of (cg_nodes (add_hidden_start start c)) start = Some n"
    and "fold_raise (attach_branch_reader start nm)
           (reader_ends b (attach_branch_writer start nm b n (add_hidden_start start c)))
           (attach_branch_writer start nm b n (add_hidden_start start c)) = Inr c'"
  using assms by (auto simp: attach_branch_def Let_def split: option.splits)

lemma attach_branch_reader_writers:
  "attach_branch_reader start nm e c = Inr c' \<Longrightarrow> unit_writers c' u = unit_writers c u"
  by (auto simp: attach_branch_reader_def unit_writers_def Let_def update_conv'
           split: if_splits option.splits)

lemma attach_branch_readers_writers:
  "fold_raise (attach_branch_reader start nm) es c = Inr c'
   \<Longrightarrow> unit_writers c' u = unit_writers c u"
  by (erule fold_raise_invariant[where P="\<lambda>t. unit_writers t u = unit_writers c u"])
     (simp_all add: attach_branch_reader_writers)

lemma attach_branch_writer_attached:
  assumes "attach_branch start nm b c = Inr c'"
  shows "BranchRoute start nm b \<in> set (unit_writers c' start)"
proof -
  from assms obtain n where
    f: "fold_raise (attach_branch_reader start nm)
           (reader_ends b (attach_branch_writer start nm b n (add_hidden_start start c)))
           (attach_branch_writer start nm b n (add_hidden_start start c)) = Inr c'"
    by (rule attach_branch_InrD)
  have "unit_writers c' start
          = unit_writers (attach_branch_writer start nm b n (add_hidden_start start c)) start"
    using f by (rule attach_branch_readers_writers)
  then show ?thesis
    by (simp add: attach_branch_writer_def unit_writers_def update_conv' pipe_writer_def)
qed

text \<open>
  Claim C6. For a branch on source \<open>S\<close> with \<^verbatim>\<open>ends={"x":"A","y":"B"}\<close> whose path returns
  \<^verbatim>\<open>"x"\<close>: the stage that \<open>attach_branch\<close> puts on the unit of \<open>S\<close> is the branch writer, and
  running it writes to the one channel named from \<open>(S, branch name, A)\<close>, which is not the
  channel named from \<open>(S, branch name, B)\<close>.
\<close>

theorem branch_writer_writes_selected_channel:
  assumes "ends b = Some [(''x'', ''A''), (''y'', ''B'')]"
    and "invoke (path b) input = Label ''x''"
    and "attach_branch S nm b c = Inr c'"
  shows "BranchRoute S nm b \<in> set (unit_writers c' S) \<and>
         run_writer (BranchRoute S nm b) input = Inr [branch_channel S nm ''A''] \<and>
         branch_channel S nm ''B'' \<notin> set [branch_channel S nm ''A'']"
proof (intro conjI)
  show "BranchRoute S nm b \<in> set (unit_writers c' S)"
    using assms(3) by (rule attach_branch_writer_attached)
  show "run_writer (BranchRoute S nm b) input = Inr [branch_channel S nm ''A'']"
    using assms(1,2) by (simp add: run_writer_def route_def branch_writer_def END_def)
  show "branch_channel S nm ''B'' \<notin> set [branch_channel S nm ''A'']"
    by (simp add: branch_channel_def)
qed

theorem branch_writer_writes_selected_channel_witness:
  "ends ex_xy_branch = Some [(''x'', ''A''), (''y'', ''B'')] \<and>
   invoke (path ex_xy_branch) () = Label ''x'' \<and>
   (case attach_branch ''S'' ''condition'' ex_xy_branch ex_units of
      Inl _ \<Rightarrow> False
    | Inr c' \<Rightarrow>
        BranchRoute ''S'' ''condition'' ex_xy_branch \<in> set (unit_writers c' ''S'') \<and>
        run_writer (BranchRoute ''S'' ''condition'' ex_xy_branch) () = Inr [''branch:S:condition:A''])"
proof -
  have a: "ends ex_xy_branch = Some [(''x'', ''A''), (''y'', ''B'')]"
    and b: "invoke (path ex_xy_branch) () = Label ''x''"
    by (simp_all add: ex_xy_branch_def ex_path_def)
  have "\<exists>c'. attach_branch ''S'' ''condition'' ex_xy_branch ex_units = Inr c'"
    by (simp add: attach_branch_def add_hidden_start_def attach_branch_writer_def reader_ends_def
          attach_branch_reader_def ex_units_def attach_node_def compiled_init_def
          ex_xy_branch_def Let_def START_def END_def)
  then obtain c' where c: "attach_branch ''S'' ''condition'' ex_xy_branch ex_units = Inr c'"
    by blast
  from branch_writer_writes_selected_channel[OF a b c] a b c show ?thesis
    by (simp add: branch_channel_def)
qed

subsection \<open>The sources of a branch without ends\<close>

lemma sources_of_branch_mono: "set acc \<subseteq> set (sources_of_branch ks item acc)"
proof -
  obtain start cond b where item: "item = (start, cond, b)"
    by (cases item) auto
  show ?thesis
    unfolding item
    by (auto simp: sources_of_branch_def Let_def set_fold_set_add set_add_def
             split: option.splits)
qed

lemma fold_sources_mono: "set acc \<subseteq> set (fold (sources_of_branch ks) items acc)"
proof (induction items arbitrary: acc)
  case Nil
  then show ?case by simp
next
  case (Cons item items)
  have "set acc \<subseteq> set (sources_of_branch ks item acc)"
    by (rule sources_of_branch_mono)
  also have "\<dots> \<subseteq> set (fold (sources_of_branch ks) items (sources_of_branch ks item acc))"
    by (rule Cons.IH)
  finally show ?case by simp
qed

lemma sources_of_branch_fan_out:
  "ends b = None \<Longrightarrow> then_node b = Some t \<Longrightarrow> d \<in> set ks \<Longrightarrow> d \<noteq> start \<Longrightarrow> d \<noteq> t
   \<Longrightarrow> d \<in> set (sources_of_branch ks (start, cond, b) acc)"
  by (simp add: sources_of_branch_def Let_def set_fold_set_add)

lemma fold_sources_fan_out:
  assumes "(start, cond, b) \<in> set items" "ends b = None" "then_node b = Some t"
    and "d \<in> set ks" "d \<noteq> start" "d \<noteq> t"
  shows "d \<in> set (fold (sources_of_branch ks) items acc)"
  using assms(1)
proof (induction items arbitrary: acc)
  case Nil
  then show ?case by simp
next
  case (Cons item items)
  show ?case
  proof (cases "item = (start, cond, b)")
    case True
    have "d \<in> set (sources_of_branch ks item acc)"
      unfolding True using assms(2-6) by (rule sources_of_branch_fan_out)
    then show ?thesis
      using fold_sources_mono[of "sources_of_branch ks item acc" ks items] by auto
  next
    case False
    with Cons.prems have "(start, cond, b) \<in> set items" by simp
    then show ?thesis by (simp add: Cons.IH)
  qed
qed

lemma validate_dead_end_only_non_source:
  assumes "result (validate interrupt g) = Inl (DeadEnd d)"
  shows "d \<notin> set (all_sources g)"
proof -
  from assms have v: "validate_raises interrupt g = Some (DeadEnd d)"
    by (simp add: validate_def split: option.splits)
  show ?thesis
  proof (cases "dead_end_check g")
    case None
    with v show ?thesis
      by (auto simp: validate_raises_def Let_def or_else_def source_check_def
               split: option.splits sum.splits if_splits
               dest!: first_raise_SomeD all_targets_raises)
  next
    case (Some e)
    with v have "dead_end_check g = Some (DeadEnd d)"
      by (simp add: validate_raises_def Let_def or_else_def)
    then show ?thesis
      by (auto simp: dead_end_check_def dest!: first_raise_SomeD split: if_splits)
  qed
qed

text \<open>
  Claim C3, as the code has it. The sources of a branch without \<^verbatim>\<open>ends\<close> are widened only
  when the branch has a \<^verbatim>\<open>then\<close> node: then every declared node other than the branch
  source and the \<^verbatim>\<open>then\<close> node itself is in \<open>all_sources\<close>, and \<open>validate\<close> reports none of
  them as a dead end.
\<close>

theorem fan_out_sources_need_then:
  assumes "(start, cond, b) \<in> set (branch_items g)" and "ends b = None"
    and "then_node b = Some t"
    and "d \<in> set (map fst (nodes g))" and "d \<noteq> start" and "d \<noteq> t"
  shows "d \<in> set (all_sources g) \<and> result (validate interrupt g) \<noteq> Inl (DeadEnd d)"
proof -
  have "d \<in> set (all_sources g)"
    unfolding all_sources_def using assms by (rule fold_sources_fan_out)
  then show ?thesis
    using validate_dead_end_only_non_source[of interrupt g d] by blast
qed

lemma ex_branch_no_then_eq: "ex_branch_no_then = \<lparr>nodes = [(''A'', 0), (''B'', 1)],
   edges = [(START, ''A'')],
   branches = [(''A'', [(''condition'', \<lparr>path = ex_path, ends = None, then_node = None\<rparr>)])],
   support_multiple_edges = False, compiled = False\<rparr>"
  by (simp add: ex_branch_no_then_def builder_defs ex_path_def)

lemma ex_branch_then_eq: "ex_branch_then = \<lparr>nodes = [(''S'', 0), (''A'', 1), (''T'', 2)],
   edges = [(START, ''S''), (''T'', END)],
   branches = [(''S'', [(''condition'', \<lparr>path = ex_path, ends = None, then_node = Some ''T''\<rparr>)])],
   support_multiple_edges = False, compiled = False\<rparr>"
  by (simp add: ex_branch_then_def builder_defs ex_path_def)

text \<open>
  A branch without \<^verbatim>\<open>ends\<close> and without \<^verbatim>\<open>then\<close> widens nothing: node \<open>B\<close>, reachable only
  as a target of the branch on \<open>A\<close>, is not a source and is reported as a dead end.
\<close>

theorem fan_out_sources_counterexample:
  "(''A'', ''condition'', \<lparr>path = ex_path, ends = None, then_node = None\<rparr>)
      \<in> set (branch_items ex_branch_no_then) \<and>
   ''B'' \<in> set (map fst (nodes ex_branch_no_then)) \<and> ''B'' \<noteq> ''A'' \<and>
   ''B'' \<notin> set (all_sources ex_branch_no_then) \<and>
   result (validate [] ex_branch_no_then) = Inl (DeadEnd ''B'')"
  by (simp add: ex_branch_no_then_eq branch_items_def all_sources_def sources_of_branch_def
        set_add_def validate_def validate_raises_def dead_end_check_def or_else_def Let_def
        START_def)

theorem fan_out_sources_need_then_witness:
  "(''S'', ''condition'', \<lparr>path = ex_path, ends = None, then_node = Some ''T''\<rparr>)
      \<in> set (branch_items ex_branch_then) \<and>
   ''A'' \<in> set (map fst (nodes ex_branch_then)) \<and>
   ''A'' \<in> set (all_sources ex_branch_then) \<and>
   result (validate [] ex_branch_then) \<noteq> Inl (DeadEnd ''A'')"
proof -
  have a: "(''S'', ''condition'', \<lparr>path = ex_path, ends = None, then_node = Some ''T''\<rparr>)
      \<in> set (branch_items ex_branch_then)"
    and b: "''A'' \<in> set (map fst (nodes ex_branch_then))"
    by (simp_all add: ex_branch_then_eq branch_items_def)
  from fan_out_sources_need_then[OF a _ _ b, of "''T''" "[]"] a b show ?thesis by simp
qed

subsection \<open>A chain of two nodes\<close>

lemma three_orders:
  assumes "distinct es" and "set es = {x, y, z}" and "x \<noteq> y" "x \<noteq> z" "y \<noteq> z"
  shows "es = [x, y, z] \<or> es = [x, z, y] \<or> es = [y, x, z] \<or> es = [y, z, x]
         \<or> es = [z, x, y] \<or> es = [z, y, x]"
proof -
  have "length es = card (set es)"
    using assms(1) by (simp add: distinct_card)
  also have "\<dots> = 3"
    using assms(2-5) by simp
  finally obtain a b c where es: "es = [a, b, c]"
    by (auto simp: numeral_3_eq_3 length_Suc_conv)
  have d: "a \<noteq> b" "a \<noteq> c" "b \<noteq> c"
    using assms(1) by (simp_all add: es)
  have "{a, b, c} = {x, y, z}"
    using assms(2) by (simp add: es)
  then have m: "a \<in> {x, y, z}" "b \<in> {x, y, z}" "c \<in> {x, y, z}"
    by blast+
  show ?thesis
    unfolding es using d m by auto
qed

lemma chain_graph_eq:
  assumes "A \<noteq> B" "A \<noteq> START" "A \<noteq> END" "B \<noteq> START" "B \<noteq> END"
  shows "(chain_graph A B a b :: ('a, 'i) Graph) = \<lparr>nodes = [(A, a), (B, b)],
     edges = [(START, A), (A, B), (B, END)], branches = [],
     support_multiple_edges = False, compiled = False\<rparr>"
  using assms START_neq_END
  by (auto simp: chain_graph_def add_node_def add_edge_def Graph_init_def set_add_def Let_def)

lemma chain_validate:
  assumes "A \<noteq> B" "A \<noteq> START" "A \<noteq> END" "B \<noteq> START" "B \<noteq> END"
    and "set es = {(START, A), (A, B), (B, END)}"
  shows "validate_raises [] (\<lparr>nodes = [(A, a), (B, b)], edges = es, branches = [],
           support_multiple_edges = False, compiled = False\<rparr> :: ('a, 'i) Graph) = None"
proof -
  let ?g = "\<lparr>nodes = [(A, a), (B, b)], edges = es, branches = [],
           support_multiple_edges = False, compiled = False\<rparr> :: ('a, 'i) Graph"
  have s: "set (all_sources ?g) = {START, A, B}"
    using assms(6) by (auto simp: all_sources_def branch_items_def set_fold_set_add image_iff)
  have t: "all_targets ?g = Inr (fold set_add (map snd es) [])"
    by (simp add: all_targets_def branch_items_def)
  have t': "set (fold set_add (map snd es) []) = {A, B, END}"
    using assms(6) by (auto simp: set_fold_set_add image_iff)
  have de: "dead_end_check ?g = None"
    using s by (simp add: dead_end_check_def)
  have sc: "first_raise (source_check (map fst (nodes ?g)) (node_after_loop (map fst (nodes ?g))))
              (all_sources ?g) = None"
    by (rule source_check_bound) simp
  have nr: "first_raise (\<lambda>node. if node \<notin> set (fold set_add (map snd es) [])
                                  then Some (NotReachable node) else None) (map fst (nodes ?g)) = None"
    using t' by simp
  have eu: "first_raise (\<lambda>target. if target \<notin> set (map fst (nodes ?g)) \<and> target \<noteq> END
                                    then Some (EdgeEndingAtUnknownNode target) else None)
              (fold set_add (map snd es) []) = None"
    using t' by (simp add: first_raise_None_iff)
  show ?thesis
    unfolding validate_raises_def Let_def de sc t
    using nr eu by (simp add: or_else_def)
qed

lemma chain_attach:
  assumes "A \<noteq> B" "A \<noteq> START" "A \<noteq> END" "B \<noteq> START" "B \<noteq> END"
    and "distinct es" and "set es = {(START, A), (A, B), (B, END)}"
  shows "attach_all [] [] \<lparr>nodes = [(A, a), (B, b)], edges = es, branches = [],
           support_multiple_edges = False, compiled = True\<rparr> = Inr (chain_plan A B a b)"
proof -
  have "es = [(START, A), (A, B), (B, END)] \<or> es = [(START, A), (B, END), (A, B)]
      \<or> es = [(A, B), (START, A), (B, END)] \<or> es = [(A, B), (B, END), (START, A)]
      \<or> es = [(B, END), (START, A), (A, B)] \<or> es = [(B, END), (A, B), (START, A)]"
    using assms(6,7) by (rule three_orders) (use assms(1-5) in auto)
  then show ?thesis
    using assms(1-5) START_neq_END
    by (elim disjE)
       (simp_all add: attach_all_def attach_node_def attach_edge_def compiled_init_def
          branch_items_def pipe_writer_def pipe_action_def chain_plan_def Let_def)
qed

text \<open>
  Claim C4. For the graph with declared nodes \<open>A\<close> and \<open>B\<close> and the edges entry to \<open>A\<close>,
  \<open>A\<close> to \<open>B\<close>, \<open>B\<close> to terminal, in whatever order the edge set hands them out: \<open>validate\<close>
  succeeds, and \<open>compile\<close> returns, unless \<^verbatim>\<open>Pregel.validate\<close> raises, the compiled graph
  \<open>chain_plan\<close>, in which the triggers of \<open>A\<close> are exactly the entry channel, the triggers
  of \<open>B\<close> are exactly the output channel of \<open>A\<close>, and the unit of \<open>B\<close>, not that of \<open>A\<close>,
  carries the writer to the terminal channel.
\<close>

theorem chain_compiles_to_plan:
  fixes pv :: "('a, 'i) CompiledGraph \<Rightarrow> error option"
  assumes "A \<noteq> B" "A \<noteq> START" "A \<noteq> END" "B \<noteq> START" "B \<noteq> END"
    and "distinct es" and "set es = set (edges (chain_graph A B a b :: ('a, 'i) Graph))"
  shows "result (validate [] ((chain_graph A B a b :: ('a, 'i) Graph)\<lparr>edges := es\<rparr>)) = Inr () \<and>
         result (compile pv [] [] ((chain_graph A B a b)\<lparr>edges := es\<rparr>))
           = (case pv (chain_plan A B a b) of None \<Rightarrow> Inr (chain_plan A B a b) | Some e \<Rightarrow> Inl e) \<and>
         set (unit_triggers (chain_plan A B a b :: ('a, 'i) CompiledGraph) A) = {START} \<and>
         set (unit_triggers (chain_plan A B a b :: ('a, 'i) CompiledGraph) B) = {A} \<and>
         ChannelWrite [END] \<in> set (unit_writers (chain_plan A B a b :: ('a, 'i) CompiledGraph) B) \<and>
         ChannelWrite [END] \<notin> set (unit_writers (chain_plan A B a b :: ('a, 'i) CompiledGraph) A)"
proof -
  let ?g = "\<lparr>nodes = [(A, a), (B, b)], edges = es, branches = [],
             support_multiple_edges = False, compiled = False\<rparr> :: ('a, 'i) Graph"
  let ?p = "chain_plan A B a b :: ('a, 'i) CompiledGraph"
  have g: "(chain_graph A B a b)\<lparr>edges := es\<rparr> = ?g"
    using assms(1-5) by (simp add: chain_graph_eq)
  have es: "set es = {(START, A), (A, B), (B, END)}"
    using assms(1-5,7) by (simp add: chain_graph_eq)
  have v: "validate_raises [] ?g = None"
    using assms(1-5) es by (rule chain_validate)
  have l: "attach_all [] [] (?g\<lparr>compiled := True\<rparr>) = Inr ?p"
    using chain_attach[OF assms(1-6) es] by simp
  have "result (validate [] ?g) = Inr ()"
    by (simp add: validate_def v)
  moreover have "result (compile pv [] [] ?g)
           = (case pv ?p of None \<Rightarrow> Inr ?p | Some e \<Rightarrow> Inl e)"
    using l by (simp add: compile_def validate_def v split: option.splits)
  moreover have "set (unit_triggers ?p A) = {START}"
    "set (unit_triggers ?p B) = {A}"
    "ChannelWrite [END] \<in> set (unit_writers ?p B)"
    "ChannelWrite [END] \<notin> set (unit_writers ?p A)"
    using assms(1-5) by (auto simp: chain_plan_def unit_triggers_def unit_writers_def)
  ultimately show ?thesis
    unfolding g by simp
qed

theorem chain_compiles_to_plan_witness:
  "result (validate [] (chain_graph ''A'' ''B'' (0::nat) 1 :: (nat, unit) Graph)) = Inr () \<and>
   result (compile (\<lambda>_. None) [] [] (chain_graph ''A'' ''B'' (0::nat) 1 :: (nat, unit) Graph))
     = Inr (chain_plan ''A'' ''B'' 0 1) \<and>
   set (unit_triggers (chain_plan ''A'' ''B'' (0::nat) 1 :: (nat, unit) CompiledGraph) ''A'') = {START} \<and>
   set (unit_triggers (chain_plan ''A'' ''B'' (0::nat) 1 :: (nat, unit) CompiledGraph) ''B'') = {''A''}"
proof -
  let ?g = "chain_graph ''A'' ''B'' (0::nat) 1 :: (nat, unit) Graph"
  have n: "''A'' \<noteq> ''B''" "''A'' \<noteq> START" "''A'' \<noteq> END" "''B'' \<noteq> START" "''B'' \<noteq> END"
    by (simp_all add: START_def END_def)
  have d: "distinct (edges ?g)"
    using n by (simp add: chain_graph_eq START_neq_END)
  have u: "?g\<lparr>edges := edges ?g\<rparr> = ?g"
    by simp
  from chain_compiles_to_plan[OF n d refl, of "\<lambda>_. None", unfolded u] show ?thesis
    by simp
qed

subsection \<open>The convergence node of a branch\<close>

lemma ex_converge_eq: "ex_converge = \<lparr>nodes = [(''S'', 0), (''A'', 1), (''B'', 2), (''T'', 3)],
   edges = [(START, ''S''), (''T'', END)],
   branches = [(''S'', [(''condition'',
      \<lparr>path = ex_ab_path, ends = Some [(''a'', ''A''), (''b'', ''B'')], then_node = Some ''T''\<rparr>)])],
   support_multiple_edges = False, compiled = False\<rparr>"
  by (simp add: ex_converge_def builder_defs ex_ab_path_def)

lemmas validate_defs = validate_def validate_raises_def dead_end_check_def all_sources_def
  all_targets_def branch_items_def sources_of_branch_def targets_of_branch_def source_check_def
  node_after_loop_def or_else_def set_add_def Let_def

lemmas attach_defs = attach_all_def attach_node_def attach_edge_def attach_branch_def
  add_hidden_start_def attach_branch_writer_def reader_ends_def attach_branch_reader_def
  compiled_init_def pipe_writer_def pipe_action_def subscribe_to_def branch_channel_def
  branch_items_def Let_def

lemma ex_converge_validate: "validate [] ex_converge
    = \<lparr>result = Inr (), warnings = [], state = ex_converge\<lparr>compiled := True\<rparr>\<rparr>"
  by (simp add: ex_converge_eq validate_defs START_def END_def)

text \<open>
  Claim C1 fails on the code. The builder \<open>ex_converge\<close> declares a branch on \<open>S\<close> with
  destinations \<open>A\<close> and \<open>B\<close> and the convergence node \<^verbatim>\<open>then="T"\<close>. It validates and, when
  \<^verbatim>\<open>Pregel.validate\<close> accepts, compiles. In the compiled graph the unit of \<open>T\<close> has no
  trigger at all: neither the output channel of \<open>A\<close> nor that of \<open>B\<close> triggers it.
  \<open>attach_branch\<close> never reads \<^verbatim>\<open>branch.then\<close>.
\<close>

theorem then_node_is_not_wired:
  "result (validate [] ex_converge) = Inr () \<and>
   (case result (compile (\<lambda>_. None) [] [] ex_converge) of
      Inl _ \<Rightarrow> False
    | Inr c \<Rightarrow>
        unit_triggers c ''A'' = [''branch:S:condition:A''] \<and>
        unit_triggers c ''B'' = [''branch:S:condition:B''] \<and>
        unit_triggers c ''T'' = [] \<and>
        unit_writers c ''A'' = [ChannelWrite [''A'']] \<and>
        unit_writers c ''B'' = [ChannelWrite [''B'']])"
  by (simp add: compile_def ex_converge_validate)
     (simp add: ex_converge_eq attach_defs unit_triggers_def unit_writers_def START_def END_def)

subsection \<open>What the attach loops write and keep\<close>

lemma fold_raise_append:
  "fold_raise f (xs @ ys) s = (case fold_raise f xs s of Inl e \<Rightarrow> Inl e | Inr t \<Rightarrow> fold_raise f ys t)"
  by (induction xs arbitrary: s) (auto split: sum.splits)



lemma keys_attach_nodes:
  "fst ` set (cg_nodes (fold (\<lambda>(key, node). attach_node key node) xs c))
     = fst ` set xs \<union> fst ` set (cg_nodes c)"
proof (induction xs arbitrary: c)
  case Nil
  then show ?case by simp
next
  case (Cons x xs)
  obtain key node where x: "x = (key, node)" by (cases x)
  have "fst ` set (cg_nodes (attach_node key node c)) = insert key (fst ` set (cg_nodes c))"
    by (simp add: attach_node_def dom_update)
  then show ?case
    by (simp add: x Cons.IH)
qed


lemma compile_InrD:
  assumes "result (compile pv ib ia g) = Inr c"
  shows "attach_all ib ia (g\<lparr>compiled := True\<rparr>) = Inr c"
  using assms
  by (auto simp: compile_def validate_def Let_def split: option.splits sum.splits)

lemma map_of_Some_key: "map_of al k = Some v \<Longrightarrow> k \<in> fst ` set al"
  by (auto dest!: map_of_SomeD simp: rev_image_eqI)

lemma keys_update_present:
  "map_of al k = Some v \<Longrightarrow> fst ` set (AList.update k w al) = fst ` set al"
  by (simp add: dom_update insert_absorb map_of_Some_key)

lemma attach_edge_keys:
  "attach_edge s e c = Inr c' \<Longrightarrow> fst ` set (cg_nodes c') = fst ` set (cg_nodes c)"
  by (clarsimp simp: attach_edge_def keys_update_present split: if_splits option.splits)

lemma reader_keys:
  "attach_branch_reader s nm e c = Inr c' \<Longrightarrow> fst ` set (cg_nodes c') = fst ` set (cg_nodes c)"
  by (clarsimp simp: attach_branch_reader_def Let_def keys_update_present
           split: if_splits option.splits)

lemma reader_keeps:
  assumes "attach_branch_reader s nm e c = Inr c'"
    and "ch \<in> fst ` set (cg_channels c)" and "ch \<in> set (unit_triggers c d)"
  shows "ch \<in> fst ` set (cg_channels c') \<and> ch \<in> set (unit_triggers c' d)"
  using assms
  by (auto simp: attach_branch_reader_def Let_def dom_update unit_triggers_def update_conv'
           rev_image_eqI split: if_splits option.splits)

lemma reader_adds:
  assumes "attach_branch_reader s nm e c = Inr c'" and "e \<noteq> END"
  shows "branch_channel s nm e \<in> fst ` set (cg_channels c') \<and>
         branch_channel s nm e \<in> set (unit_triggers c' e)"
  using assms
  by (auto simp: attach_branch_reader_def Let_def dom_update unit_triggers_def update_conv'
           rev_image_eqI split: if_splits option.splits)

lemma readers_keep:
  assumes "fold_raise (attach_branch_reader s nm) es c = Inr c'"
    and "ch \<in> fst ` set (cg_channels c) \<and> ch \<in> set (unit_triggers c d)"
  shows "ch \<in> fst ` set (cg_channels c') \<and> ch \<in> set (unit_triggers c' d)"
  using assms(1,2)
  by (rule fold_raise_invariant) (rule reader_keeps, auto)

lemma readers_keys:
  assumes "fold_raise (attach_branch_reader s nm) es c = Inr c'"
  shows "fst ` set (cg_nodes c') = fst ` set (cg_nodes c)"
  using assms
  by (rule fold_raise_invariant[where P="\<lambda>t. fst ` set (cg_nodes t) = fst ` set (cg_nodes c)"])
     (simp_all add: reader_keys)

lemma readers_add:
  assumes "fold_raise (attach_branch_reader s nm) es c = Inr c'" and "e \<in> set es" and "e \<noteq> END"
  shows "branch_channel s nm e \<in> fst ` set (cg_channels c') \<and>
         branch_channel s nm e \<in> set (unit_triggers c' e)"
  using assms(1,2)
proof (induction es arbitrary: c)
  case Nil
  then show ?case by simp
next
  case (Cons x es)
  from Cons.prems(1) obtain t where
    t: "attach_branch_reader s nm x c = Inr t" "fold_raise (attach_branch_reader s nm) es t = Inr c'"
    by (auto split: sum.splits)
  show ?case
  proof (cases "x = e")
    case True
    have "branch_channel s nm e \<in> fst ` set (cg_channels t) \<and>
          branch_channel s nm e \<in> set (unit_triggers t e)"
      using t(1) assms(3) unfolding True by (rule reader_adds)
    with t(2) show ?thesis by (rule readers_keep)
  next
    case False
    with Cons.prems(2) have "e \<in> set es" by simp
    with t(2) show ?thesis by (rule Cons.IH)
  qed
qed

lemma add_hidden_start_keeps:
  "fst ` set (cg_nodes c) \<subseteq> fst ` set (cg_nodes (add_hidden_start s c))"
  "cg_channels (add_hidden_start s c) = cg_channels c"
  "set (unit_triggers c d) \<subseteq> set (unit_triggers (add_hidden_start s c) d)"
  by (auto simp: add_hidden_start_def dom_update unit_triggers_def update_conv'
           split: option.splits dest: map_of_Some_key map_of_Some_key[OF sym])

lemma attach_branch_writer_keeps:
  assumes "map_of (cg_nodes c) s = Some n"
  shows "fst ` set (cg_nodes (attach_branch_writer s nm b n c)) = fst ` set (cg_nodes c)"
    and "cg_channels (attach_branch_writer s nm b n c) = cg_channels c"
    and "unit_triggers (attach_branch_writer s nm b n c) d = unit_triggers c d"
  using assms
  by (simp_all add: attach_branch_writer_def keys_update_present unit_triggers_def update_conv'
        pipe_writer_def)

lemma attach_branch_keeps:
  assumes "attach_branch s nm b c = Inr c'"
    and "ch \<in> fst ` set (cg_channels c) \<and> ch \<in> set (unit_triggers c d)"
  shows "ch \<in> fst ` set (cg_channels c') \<and> ch \<in> set (unit_triggers c' d)"
proof -
  from assms(1) obtain n where
    n: "map_of (cg_nodes (add_hidden_start s c)) s = Some n" and
    f: "fold_raise (attach_branch_reader s nm)
           (reader_ends b (attach_branch_writer s nm b n (add_hidden_start s c)))
           (attach_branch_writer s nm b n (add_hidden_start s c)) = Inr c'"
    by (rule attach_branch_InrD)
  have "ch \<in> fst ` set (cg_channels (attach_branch_writer s nm b n (add_hidden_start s c))) \<and>
        ch \<in> set (unit_triggers (attach_branch_writer s nm b n (add_hidden_start s c)) d)"
    using assms(2) add_hidden_start_keeps(3)[of c d s]
    by (auto simp: attach_branch_writer_keeps[OF n] add_hidden_start_keeps(2))
  with f show ?thesis by (rule readers_keep)
qed

lemma attach_branch_keys:
  assumes "attach_branch s nm b c = Inr c'"
  shows "fst ` set (cg_nodes c) \<subseteq> fst ` set (cg_nodes c')"
proof -
  from assms(1) obtain n where
    n: "map_of (cg_nodes (add_hidden_start s c)) s = Some n" and
    f: "fold_raise (attach_branch_reader s nm)
           (reader_ends b (attach_branch_writer s nm b n (add_hidden_start s c)))
           (attach_branch_writer s nm b n (add_hidden_start s c)) = Inr c'"
    by (rule attach_branch_InrD)
  show ?thesis
    using add_hidden_start_keeps(1)[of c s]
    by (simp add: readers_keys[OF f] attach_branch_writer_keeps(1)[OF n])
qed

lemma attach_branch_adds:
  assumes "attach_branch s nm b c = Inr c'" and "ends b = None"
    and "d \<in> fst ` set (cg_nodes c)" and "d \<noteq> END"
  shows "branch_channel s nm d \<in> fst ` set (cg_channels c') \<and>
         branch_channel s nm d \<in> set (unit_triggers c' d)"
proof -
  from assms(1) obtain n where
    n: "map_of (cg_nodes (add_hidden_start s c)) s = Some n" and
    f: "fold_raise (attach_branch_reader s nm)
           (reader_ends b (attach_branch_writer s nm b n (add_hidden_start s c)))
           (attach_branch_writer s nm b n (add_hidden_start s c)) = Inr c'"
    by (rule attach_branch_InrD)
  have "d \<in> set (reader_ends b (attach_branch_writer s nm b n (add_hidden_start s c)))"
    using assms(2,3) add_hidden_start_keeps(1)[of c s]
    by (auto simp: reader_ends_def attach_branch_writer_keeps(1)[OF n])
  with f show ?thesis
    using assms(4) by (rule readers_add)
qed

lemma branches_keep:
  assumes "fold_raise (\<lambda>(start, nm, branch). attach_branch start nm branch) items c = Inr c'"
    and "ch \<in> fst ` set (cg_channels c) \<and> ch \<in> set (unit_triggers c d)"
  shows "ch \<in> fst ` set (cg_channels c') \<and> ch \<in> set (unit_triggers c' d)"
  using assms(1,2)
proof (rule fold_raise_invariant)
  fix x t t'
  assume p: "ch \<in> fst ` set (cg_channels t) \<and> ch \<in> set (unit_triggers t d)"
    and s: "(case x of (start, nm, branch) \<Rightarrow> attach_branch start nm branch) t = Inr t'"
  obtain s0 n0 b0 where x: "x = (s0, n0, b0)" by (cases x)
  from s have "attach_branch s0 n0 b0 t = Inr t'" by (simp add: x)
  then show "ch \<in> fst ` set (cg_channels t') \<and> ch \<in> set (unit_triggers t' d)"
    using p by (rule attach_branch_keeps)
qed

lemma branches_keys:
  assumes "fold_raise (\<lambda>(start, nm, branch). attach_branch start nm branch) items c = Inr c'"
    and "d \<in> fst ` set (cg_nodes c)"
  shows "d \<in> fst ` set (cg_nodes c')"
  using assms(1,2)
proof (rule fold_raise_invariant)
  fix x t t'
  assume p: "d \<in> fst ` set (cg_nodes t)"
    and s: "(case x of (start, nm, branch) \<Rightarrow> attach_branch start nm branch) t = Inr t'"
  obtain s0 n0 b0 where x: "x = (s0, n0, b0)" by (cases x)
  from s have "attach_branch s0 n0 b0 t = Inr t'" by (simp add: x)
  then show "d \<in> fst ` set (cg_nodes t')"
    using p attach_branch_keys by blast
qed

lemma edges_keys:
  assumes "fold_raise (\<lambda>(start, end_key). attach_edge start end_key) es c = Inr c'"
  shows "fst ` set (cg_nodes c') = fst ` set (cg_nodes c)"
  using assms
  by (rule fold_raise_invariant[where P="\<lambda>t. fst ` set (cg_nodes t) = fst ` set (cg_nodes c)"])
     (clarsimp simp: attach_edge_keys)+

lemma attach_all_fan_out:
  fixes g :: "('a, 'i) Graph" and c :: "('a, 'i) CompiledGraph"
  assumes "attach_all ib ia g = Inr c" and "(S, nm, b) \<in> set (branch_items g)"
    and "ends b = None" and "d \<in> fst ` set (nodes g)" and "d \<noteq> END"
  shows "branch_channel S nm d \<in> fst ` set (cg_channels c) \<and>
         branch_channel S nm d \<in> set (unit_triggers c d)"
proof -
  define c1 :: "('a, 'i) CompiledGraph"
    where "c1 = fold (\<lambda>(key, node). attach_node key node) (nodes g) (compiled_init ib ia)"
  from assms(1) obtain c2 where
    e: "fold_raise (\<lambda>(start, end_key). attach_edge start end_key) (edges g) c1 = Inr c2" and
    br: "fold_raise (\<lambda>(start, nm, branch). attach_branch start nm branch) (branch_items g) c2 = Inr c"
    by (auto simp: attach_all_def c1_def Let_def split: sum.splits)
  from assms(2) obtain pre post where items: "branch_items g = pre @ (S, nm, b) # post"
    by (auto dest: split_list)
  from br obtain c3 c4 where
    3: "fold_raise (\<lambda>(start, nm, branch). attach_branch start nm branch) pre c2 = Inr c3" and
    4: "attach_branch S nm b c3 = Inr c4" and
    5: "fold_raise (\<lambda>(start, nm, branch). attach_branch start nm branch) post c4 = Inr c"
    unfolding items by (auto simp: fold_raise_append split: sum.splits)
  have "d \<in> fst ` set (cg_nodes c1)"
    using assms(4) by (simp add: c1_def keys_attach_nodes)
  then have "d \<in> fst ` set (cg_nodes c2)"
    by (simp add: edges_keys[OF e])
  with 3 have "d \<in> fst ` set (cg_nodes c3)"
    by (rule branches_keys)
  with 4 assms(3) have "branch_channel S nm d \<in> fst ` set (cg_channels c4) \<and>
         branch_channel S nm d \<in> set (unit_triggers c4 d)"
    using assms(5) by (rule attach_branch_adds)
  with 5 show ?thesis
    by (rule branches_keep)
qed

lemma distinct_channels_attach_nodes:
  "distinct (map fst (cg_channels c))
   \<Longrightarrow> distinct (map fst (cg_channels (fold (\<lambda>(key, node). attach_node key node) xs c)))"
proof (induction xs arbitrary: c)
  case Nil
  then show ?case by simp
next
  case (Cons x xs)
  obtain key node where x: "x = (key, node)" by (cases x)
  have "distinct (map fst (cg_channels (attach_node key node c)))"
    using Cons.prems by (simp add: attach_node_def distinct_update)
  then show ?case
    by (simp add: x Cons.IH)
qed

lemma attach_edge_channels: "attach_edge s e c = Inr c' \<Longrightarrow> cg_channels c' = cg_channels c"
  by (auto simp: attach_edge_def split: if_splits option.splits)

lemma reader_distinct_channels:
  "attach_branch_reader s nm e c = Inr c' \<Longrightarrow> distinct (map fst (cg_channels c))
   \<Longrightarrow> distinct (map fst (cg_channels c'))"
  by (auto simp: attach_branch_reader_def Let_def distinct_update split: if_splits option.splits)

lemma attach_branch_distinct_channels:
  assumes "attach_branch s nm b c = Inr c'" and "distinct (map fst (cg_channels c))"
  shows "distinct (map fst (cg_channels c'))"
proof -
  from assms(1) obtain n where
    n: "map_of (cg_nodes (add_hidden_start s c)) s = Some n" and
    f: "fold_raise (attach_branch_reader s nm)
           (reader_ends b (attach_branch_writer s nm b n (add_hidden_start s c)))
           (attach_branch_writer s nm b n (add_hidden_start s c)) = Inr c'"
    by (rule attach_branch_InrD)
  have "distinct (map fst (cg_channels (attach_branch_writer s nm b n (add_hidden_start s c))))"
    using assms(2) by (simp add: attach_branch_writer_keeps(2)[OF n] add_hidden_start_keeps(2))
  with f show ?thesis
    by (rule fold_raise_invariant) (rule reader_distinct_channels)
qed

lemma attach_all_distinct_channels:
  fixes g :: "('a, 'i) Graph" and c :: "('a, 'i) CompiledGraph"
  assumes "attach_all ib ia g = Inr c"
  shows "distinct (map fst (cg_channels c))"
proof -
  define c1 :: "('a, 'i) CompiledGraph"
    where "c1 = fold (\<lambda>(key, node). attach_node key node) (nodes g) (compiled_init ib ia)"
  from assms(1) obtain c2 where
    e: "fold_raise (\<lambda>(start, end_key). attach_edge start end_key) (edges g) c1 = Inr c2" and
    br: "fold_raise (\<lambda>(start, nm, branch). attach_branch start nm branch) (branch_items g) c2 = Inr c"
    by (auto simp: attach_all_def c1_def Let_def split: sum.splits)
  have "distinct (map fst (cg_channels c1))"
    unfolding c1_def
    by (rule distinct_channels_attach_nodes) (simp add: compiled_init_def START_neq_END)
  with e have "distinct (map fst (cg_channels c2))"
    by (rule fold_raise_invariant) (auto simp: attach_edge_channels)
  with br show ?thesis
    by (rule fold_raise_invariant) (auto intro: attach_branch_distinct_channels)
qed

subsection \<open>The channels of a branch without ends\<close>

text \<open>
  Claim C2, as the code has it. For a branch declared without \<^verbatim>\<open>ends\<close> on source \<open>S\<close>, a
  successful \<open>compile\<close> has put, for every declared node \<open>d\<close> (the source \<open>S\<close> included), the
  channel named from \<open>(S, branch name, d)\<close> into the channel registry, whose names are
  distinct, and into the triggers of the unit of \<open>d\<close>. The destinations are the keys of the
  compiled graph's own \<^verbatim>\<open>nodes\<close> at that moment, which hold every declared node and, after
  a conditional entry point, the hidden start unit.
\<close>

theorem no_ends_channels_for_every_node:
  assumes "result (compile pv ib ia g) = Inr c" and "(S, nm, b) \<in> set (branch_items g)"
    and "ends b = None" and "d \<in> set (map fst (nodes g))" and "d \<noteq> END"
  shows "branch_channel S nm d \<in> set (map fst (cg_channels c)) \<and>
         distinct (map fst (cg_channels c)) \<and>
         branch_channel S nm d \<in> set (unit_triggers c d)"
proof -
  have a: "attach_all ib ia (g\<lparr>compiled := True\<rparr>) = Inr c"
    using assms(1) by (rule compile_InrD)
  have "branch_channel S nm d \<in> fst ` set (cg_channels c) \<and>
         branch_channel S nm d \<in> set (unit_triggers c d)"
    using a by (rule attach_all_fan_out) (use assms(2-5) in \<open>simp_all add: branch_items_def\<close>)
  then show ?thesis
    using attach_all_distinct_channels[OF a] by simp
qed

lemma ex_self_branch_eq: "ex_self_branch = \<lparr>nodes = [(''S'', 0), (''A'', 1)],
   edges = [(START, ''S''), (''A'', END)],
   branches = [(''S'', [(''condition'', \<lparr>path = ex_path, ends = None, then_node = None\<rparr>)])],
   support_multiple_edges = False, compiled = False\<rparr>"
  by (simp add: ex_self_branch_def builder_defs ex_path_def)

lemma ex_self_branch_validate: "validate [] ex_self_branch
    = \<lparr>result = Inr (), warnings = [], state = ex_self_branch\<lparr>compiled := True\<rparr>\<rparr>"
  by (simp add: ex_self_branch_eq validate_defs START_def END_def)

lemma ex_self_branch_compile:
  "\<exists>c. result (compile (\<lambda>_. None) [] [] ex_self_branch) = Inr c"
  by (simp add: compile_def ex_self_branch_validate)
     (simp add: ex_self_branch_eq attach_defs START_def END_def)

text \<open>
  The destinations of a branch without \<^verbatim>\<open>ends\<close> are not "every other node": the branch of
  \<open>ex_self_branch\<close> on \<open>S\<close> gets a channel for \<open>S\<close> itself, and that channel triggers \<open>S\<close>.
\<close>

theorem no_ends_channel_for_source_counterexample:
  "(''S'', ''condition'', \<lparr>path = ex_path, ends = None, then_node = None\<rparr>)
      \<in> set (branch_items ex_self_branch) \<and>
   (case result (compile (\<lambda>_. None) [] [] ex_self_branch) of
      Inl _ \<Rightarrow> False
    | Inr c \<Rightarrow>
        branch_channel ''S'' ''condition'' ''S'' \<in> set (map fst (cg_channels c)) \<and>
        branch_channel ''S'' ''condition'' ''S'' \<in> set (unit_triggers c ''S''))"
  by (simp add: compile_def ex_self_branch_validate)
     (simp add: ex_self_branch_eq attach_defs unit_triggers_def START_def END_def)

theorem no_ends_channels_for_every_node_witness:
  "(''S'', ''condition'', \<lparr>path = ex_path, ends = None, then_node = None\<rparr>)
      \<in> set (branch_items ex_self_branch) \<and>
   ''A'' \<in> set (map fst (nodes ex_self_branch)) \<and> ''A'' \<noteq> END \<and>
   (case result (compile (\<lambda>_. None) [] [] ex_self_branch) of
      Inl _ \<Rightarrow> False
    | Inr c \<Rightarrow>
        branch_channel ''S'' ''condition'' ''A'' \<in> set (map fst (cg_channels c)) \<and>
        distinct (map fst (cg_channels c)) \<and>
        branch_channel ''S'' ''condition'' ''A'' \<in> set (unit_triggers c ''A''))"
proof -
  obtain c where c: "result (compile (\<lambda>_. None) [] [] ex_self_branch) = Inr c"
    using ex_self_branch_compile by blast
  have i: "(''S'', ''condition'', \<lparr>path = ex_path, ends = None, then_node = None\<rparr>)
      \<in> set (branch_items ex_self_branch)"
    and d: "''A'' \<in> set (map fst (nodes ex_self_branch))" and e: "''A'' \<noteq> END"
    by (simp_all add: ex_self_branch_eq branch_items_def END_def)
  from no_ends_channels_for_every_node[OF c i _ d e] c i d e show ?thesis
    by simp
qed

subsection \<open>Routing errors\<close>

lemma with_invoke_fields [simp]:
  "ends (with_invoke f b) = ends b" "then_node (with_invoke f b) = then_node b"
  "name (path (with_invoke f b)) = name (path b)"
  by (simp_all add: with_invoke_def)

lemma branch_items_reroute:
  "branch_items (reroute_graph f g) = map (\<lambda>(s, n, b). (s, n, with_invoke f b)) (branch_items g)"
  by (simp add: branch_items_def reroute_graph_def map_concat comp_def split_def)

lemma sources_of_branch_reroute:
  "sources_of_branch ks (case x of (s, n, b) \<Rightarrow> (s, n, with_invoke f b)) = sources_of_branch ks x"
  by (cases x) (simp add: sources_of_branch_def fun_eq_iff Let_def split: option.splits)

lemma targets_of_branch_reroute:
  "targets_of_branch ks (case x of (s, n, b) \<Rightarrow> (s, n, with_invoke f b)) = targets_of_branch ks x"
  by (cases x) (simp add: targets_of_branch_def fun_eq_iff Let_def split: option.splits)

lemma fold_raise_map: "fold_raise F (map h xs) s = fold_raise (\<lambda>x. F (h x)) xs s"
  by (induction xs arbitrary: s) (auto split: sum.splits)

lemma all_sources_reroute: "all_sources (reroute_graph f g) = all_sources g"
  by (simp add: all_sources_def branch_items_reroute fold_map comp_def sources_of_branch_reroute)
     (simp add: reroute_graph_def)

lemma all_targets_reroute: "all_targets (reroute_graph f g) = all_targets g"
  by (simp add: all_targets_def branch_items_reroute fold_raise_map targets_of_branch_reroute)
     (simp add: reroute_graph_def)

lemma validate_raises_reroute:
  "validate_raises interrupt (reroute_graph f g) = validate_raises interrupt g"
  by (simp add: validate_raises_def dead_end_check_def all_sources_reroute all_targets_reroute)
     (simp add: reroute_graph_def)

lemma map_of_map_values:
  "map_of (map (\<lambda>(k, n). (k, h n)) al) k = map_option h (map_of al k)"
  by (induction al) auto

lemma update_map_values:
  "AList.update k (h v) (map (\<lambda>(k, n). (k, h n)) al) = map (\<lambda>(k, n). (k, h n)) (AList.update k v al)"
  by (induction al) auto

lemma keys_map_values: "map fst (map (\<lambda>(k, n). (k, h n)) al) = map fst al"
  by (induction al) auto

lemma fold_raise_commute:
  assumes "\<And>x s. F' x (H s) = map_sum id H (F x s)"
  shows "fold_raise F' xs (H s) = map_sum id H (fold_raise F xs s)"
  by (induction xs arbitrary: s) (auto simp: assms split: sum.splits)

lemma reroute_unit_fields [simp]:
  "triggers (reroute_unit f n) = triggers n" "channels (reroute_unit f n) = channels n"
  "bound (reroute_unit f n) = bound n"
  "writers (reroute_unit f n) = map (reroute_writer f) (writers n)"
  by (simp_all add: reroute_unit_def)

lemma reroute_unit_subscribe:
  "reroute_unit f n\<lparr>triggers := t, channels := ch\<rparr> = reroute_unit f (n\<lparr>triggers := t, channels := ch\<rparr>)"
  by (cases n) (simp add: reroute_unit_def)

lemma reroute_unit_pipe:
  "pipe_writer (reroute_unit f n) (reroute_writer f w) = reroute_unit f (pipe_writer n w)"
  by (cases n) (simp add: reroute_unit_def pipe_writer_def)

lemma reroute_unit_end_writer:
  "reroute_unit f n\<lparr>writers := map (reroute_writer f) (writers n) @ [ChannelWrite [END]]\<rparr>
     = reroute_unit f (n\<lparr>writers := writers n @ [ChannelWrite [END]]\<rparr>)"
  by (cases n) (simp add: reroute_unit_def reroute_writer_def)

lemma reroute_plan_fields [simp]:
  "cg_channels (reroute_plan f c) = cg_channels c"
  "stream_channels (reroute_plan f c) = stream_channels c"
  "cg_nodes (reroute_plan f c) = map (\<lambda>(k, n). (k, reroute_unit f n)) (cg_nodes c)"
  by (simp_all add: reroute_plan_def)

lemma reroute_plan_nodes_upd:
  "reroute_plan f c\<lparr>cg_nodes := map (\<lambda>(k, n). (k, reroute_unit f n)) al\<rparr>
     = reroute_plan f (c\<lparr>cg_nodes := al\<rparr>)"
  by (cases c) (simp add: reroute_plan_def)

lemma reroute_plan_channels_upd:
  "reroute_plan f c\<lparr>cg_channels := chs\<rparr> = reroute_plan f (c\<lparr>cg_channels := chs\<rparr>)"
  by (cases c) (simp add: reroute_plan_def)

lemma attach_node_reroute:
  "attach_node key node (reroute_plan f c) = reroute_plan f (attach_node key node c)"
proof -
  have u: "pipe_writer (pipe_action \<lparr>channels = [], triggers = [], bound = None, writers = []\<rparr> node)
             (ChannelWrite [key])
      = reroute_unit f (pipe_writer
          (pipe_action \<lparr>channels = [], triggers = [], bound = None, writers = []\<rparr> node)
          (ChannelWrite [key]))"
    by (simp add: reroute_unit_def pipe_writer_def pipe_action_def reroute_writer_def)
  show ?thesis
    unfolding attach_node_def
    by (subst u) (cases c, simp add: reroute_plan_def update_map_values)
qed

lemma attach_nodes_reroute:
  "fold (\<lambda>(key, node). attach_node key node) xs (reroute_plan f c)
     = reroute_plan f (fold (\<lambda>(key, node). attach_node key node) xs c)"
  by (induction xs arbitrary: c) (auto simp: attach_node_reroute)

lemma attach_edge_reroute:
  "attach_edge s e (reroute_plan f c) = map_sum id (reroute_plan f) (attach_edge s e c)"
  by (auto simp: attach_edge_def map_of_map_values reroute_unit_subscribe reroute_unit_end_writer
        update_map_values reroute_plan_nodes_upd split: option.splits)

lemma reader_reroute:
  "attach_branch_reader s nm e (reroute_plan f c)
     = map_sum id (reroute_plan f) (attach_branch_reader s nm e c)"
  by (auto simp: attach_branch_reader_def Let_def map_of_map_values reroute_unit_subscribe
        update_map_values reroute_plan_nodes_upd reroute_plan_channels_upd split: option.splits)

lemma add_hidden_start_reroute:
  "add_hidden_start s (reroute_plan f c) = reroute_plan f (add_hidden_start s c)"
proof -
  have u: "(subscribe_to START :: ('a, 'b) PregelNode) = reroute_unit f (subscribe_to START)"
    by (simp add: reroute_unit_def subscribe_to_def)
  have k: "fst ` set (cg_nodes (reroute_plan f c)) = fst ` set (cg_nodes c)"
    by (simp add: image_image split_def)
  show ?thesis
    unfolding add_hidden_start_def set_map k
    by (subst u) (auto simp: update_map_values reroute_plan_nodes_upd)
qed

lemma attach_branch_writer_reroute:
  "attach_branch_writer s nm (with_invoke f b) (reroute_unit f n) (reroute_plan f c)
     = reroute_plan f (attach_branch_writer s nm b n c)"
proof -
  have "BranchRoute s nm (with_invoke f b) = reroute_writer f (BranchRoute s nm b)"
    by (simp add: reroute_writer_def)
  then show ?thesis
    by (simp add: attach_branch_writer_def reroute_unit_pipe update_map_values
          reroute_plan_nodes_upd)
qed

lemma reader_ends_reroute:
  "reader_ends (with_invoke f b) (reroute_plan f c) = reader_ends b c"
  by (auto simp: reader_ends_def split: option.splits)

lemma readers_reroute:
  "fold_raise (attach_branch_reader s nm) es (reroute_plan f c)
     = map_sum id (reroute_plan f) (fold_raise (attach_branch_reader s nm) es c)"
  by (rule fold_raise_commute[where H="reroute_plan f"]) (rule reader_reroute)

lemma attach_branch_reroute:
  "attach_branch s nm (with_invoke f b) (reroute_plan f c)
     = map_sum id (reroute_plan f) (attach_branch s nm b c)"
proof (cases "map_of (cg_nodes (add_hidden_start s c)) s")
  case None
  then show ?thesis
    by (simp add: attach_branch_def add_hidden_start_reroute map_of_map_values)
next
  case (Some n)
  then show ?thesis
    by (simp add: attach_branch_def add_hidden_start_reroute map_of_map_values Let_def
          attach_branch_writer_reroute reader_ends_reroute readers_reroute)
qed

lemma compiled_init_reroute: "reroute_plan f (compiled_init ib ia) = compiled_init ib ia"
  by (simp add: reroute_plan_def compiled_init_def)

lemma attach_all_reroute:
  "attach_all ib ia (reroute_graph f g) = map_sum id (reroute_plan f) (attach_all ib ia g)"
proof -
  have n: "nodes (reroute_graph f g) = nodes g" and e: "edges (reroute_graph f g) = edges g"
    by (simp_all add: reroute_graph_def)
  have 1: "fold (\<lambda>(key, node). attach_node key node) (nodes g) (compiled_init ib ia)
        = reroute_plan f (fold (\<lambda>(key, node). attach_node key node) (nodes g) (compiled_init ib ia))"
    using attach_nodes_reroute[of "nodes g" f "compiled_init ib ia"]
    by (simp add: compiled_init_reroute)
  have 2: "\<And>c. fold_raise (\<lambda>(start, end_key). attach_edge start end_key) (edges g) (reroute_plan f c)
        = map_sum id (reroute_plan f)
            (fold_raise (\<lambda>(start, end_key). attach_edge start end_key) (edges g) c)"
    by (rule fold_raise_commute[where H="reroute_plan f"]) (simp add: split_def attach_edge_reroute)
  have 3: "\<And>c. fold_raise (\<lambda>(start, nm, branch). attach_branch start nm branch)
             (map (\<lambda>(s, n, b). (s, n, with_invoke f b)) (branch_items g)) (reroute_plan f c)
        = map_sum id (reroute_plan f)
            (fold_raise (\<lambda>(start, nm, branch). attach_branch start nm branch) (branch_items g) c)"
    unfolding fold_raise_map
    by (rule fold_raise_commute[where H="reroute_plan f"]) (simp add: split_def attach_branch_reroute)
  show ?thesis
    unfolding attach_all_def Let_def n e branch_items_reroute
    by (subst 1, subst 2) (auto simp: 3 split: sum.splits)
qed

lemma lookups_raise:
  assumes "\<exists>r\<in>set rs. map_of es r = None"
  shows "\<exists>r'\<in>set rs. map_of es r' = None \<and>
           fold_raise (\<lambda>r ds. case map_of es r of None \<Rightarrow> Inl (KeyError r)
                                | Some d \<Rightarrow> Inr (ds @ [d])) rs acc = Inl (KeyError r')"
  using assms
proof (induction rs arbitrary: acc)
  case Nil
  then show ?case by simp
next
  case (Cons r rs)
  show ?case
  proof (cases "map_of es r")
    case None
    then show ?thesis by simp
  next
    case (Some d)
    with Cons.prems have "\<exists>r\<in>set rs. map_of es r = None" by auto
    from Cons.IH[OF this, of "acc @ [d]"] show ?thesis
      using Some by auto
  qed
qed

lemma branch_name_invoke: "branch_name (p\<lparr>invoke := f\<rparr>) = branch_name p"
  by (simp add: branch_name_def)

lemma reroute_graph_compiled:
  "reroute_graph f (g\<lparr>compiled := True\<rparr>) = (reroute_graph f g)\<lparr>compiled := True\<rparr>"
  by (simp add: reroute_graph_def)

lemma compile_reroute:
  assumes "\<And>c. pv (reroute_plan f c) = pv c"
  shows "result (compile pv ib ia (reroute_graph f g))
           = map_sum id (reroute_plan f) (result (compile pv ib ia g))"
proof (cases "validate_raises (ib @ ia) g")
  case (Some e)
  then show ?thesis
    by (simp add: compile_def validate_def validate_raises_reroute)
next
  case None
  then show ?thesis
    by (cases "attach_all ib ia (g\<lparr>compiled := True\<rparr>)")
       (simp_all add: compile_def validate_def validate_raises_reroute Let_def
          reroute_graph_compiled[symmetric] attach_all_reroute assms
          split: option.splits)
qed

text \<open>
  Claim C7, as the code has it. For a branch with a non-empty \<^verbatim>\<open>ends\<close> mapping whose path
  returns a label (alone or in a list) with no entry in \<^verbatim>\<open>ends\<close>, running the lowered
  writer stage raises the \<^verbatim>\<open>KeyError\<close> of an absent label. Nothing raises earlier on
  account of the labels: \<open>add_conditional_edges\<close>, \<open>validate\<close> and \<open>compile\<close> give the same
  result when every routing function is replaced by any other function \<open>f\<close>, provided
  that \<^verbatim>\<open>Pregel.validate\<close> does not depend on the routing functions either.
\<close>

theorem unknown_label_raises_at_run_time:
  fixes g :: "('a, 'i) Graph" and pv :: "('a, 'i) CompiledGraph \<Rightarrow> error option"
  assumes "ends b = Some es" and "es \<noteq> []"
    and "rs = (case invoke (path b) input of Labels ls \<Rightarrow> ls | Label r \<Rightarrow> [r])"
    and "l \<in> set rs" and "l \<notin> fst ` set es"
    and "\<And>c. pv (reroute_plan f c) = pv c"
  shows "(\<exists>l'\<in>set rs. l' \<notin> fst ` set es \<and>
            run_writer (BranchRoute S nm b) input = Inl (KeyError l')) \<and>
         result (add_conditional_edges S ((path b)\<lparr>invoke := f\<rparr>) (ends b) (then_node b) g)
           = result (add_conditional_edges S (path b) (ends b) (then_node b) g) \<and>
         result (validate interrupt (reroute_graph f g)) = result (validate interrupt g) \<and>
         result (compile pv ib ia (reroute_graph f g))
           = map_sum id (reroute_plan f) (result (compile pv ib ia g))"
proof (intro conjI)
  have "\<exists>r\<in>set rs. map_of es r = None"
    using assms(4,5) by (auto simp: map_of_eq_None_iff)
  from lookups_raise[OF this, of "[]"] obtain l' where
    l': "l' \<in> set rs" "map_of es l' = None"
        "fold_raise (\<lambda>r ds. case map_of es r of None \<Rightarrow> Inl (KeyError r)
                             | Some d \<Rightarrow> Inr (ds @ [d])) rs [] = Inl (KeyError l')"
    by blast
  have "run_writer (BranchRoute S nm b) input = Inl (KeyError l')"
    using assms(1,2) l'(3) unfolding assms(3)
    by (simp add: run_writer_def route_def Let_def)
  with l'(1,2) show "\<exists>l'\<in>set rs. l' \<notin> fst ` set es \<and>
            run_writer (BranchRoute S nm b) input = Inl (KeyError l')"
    by (auto simp: map_of_eq_None_iff)
  show "result (add_conditional_edges S ((path b)\<lparr>invoke := f\<rparr>) (ends b) (then_node b) g)
           = result (add_conditional_edges S (path b) (ends b) (then_node b) g)"
    by (simp add: add_conditional_edges_def Let_def branch_name_invoke)
  show "result (validate interrupt (reroute_graph f g)) = result (validate interrupt g)"
    by (simp add: validate_def validate_raises_reroute split: option.splits)
  show "result (compile pv ib ia (reroute_graph f g))
           = map_sum id (reroute_plan f) (result (compile pv ib ia g))"
    using assms(6) by (rule compile_reroute)
qed

text \<open>
  An explicit but empty \<^verbatim>\<open>ends\<close> mapping is falsy for \<^verbatim>\<open>_route\<close>: every label is absent
  from it, and the writer stage raises nothing and writes to the channel of the label.
\<close>

theorem empty_ends_label_counterexample:
  "ends ex_empty_ends = Some [] \<and> invoke (path ex_empty_ends) () = Label ''x'' \<and>
   run_writer (BranchRoute ''S'' ''condition'' ex_empty_ends) ()
     = Inr [branch_channel ''S'' ''condition'' ''x'']"
  by (simp add: ex_empty_ends_def ex_path_def run_writer_def route_def branch_writer_def END_def)

lemma ex_unknown_label_eq: "ex_unknown_label = \<lparr>nodes = [(''S'', 0), (''A'', 1), (''B'', 2)],
   edges = [(START, ''S''), (''A'', END), (''B'', END)],
   branches = [(''S'', [(''condition'', ex_z_branch)])],
   support_multiple_edges = False, compiled = False\<rparr>"
  by (simp add: ex_unknown_label_def builder_defs ex_z_path_def ex_z_branch_def)

lemma ex_unknown_label_validate: "validate [] ex_unknown_label
    = \<lparr>result = Inr (), warnings = [], state = ex_unknown_label\<lparr>compiled := True\<rparr>\<rparr>"
  by (simp add: ex_unknown_label_eq validate_defs ex_z_branch_def START_def END_def)

lemma ex_unknown_label_compile:
  "\<exists>c. result (compile (\<lambda>_. None) [] [] ex_unknown_label) = Inr c"
  by (simp add: compile_def ex_unknown_label_validate)
     (simp add: ex_unknown_label_eq attach_defs ex_z_branch_def START_def END_def)

theorem unknown_label_raises_at_run_time_witness:
  "ends ex_z_branch = Some [(''x'', ''A''), (''y'', ''B'')] \<and>
   invoke (path ex_z_branch) () = Label ''z'' \<and>
   ''z'' \<notin> fst ` set [(''x'', ''A''), (''y'', ''B'')] \<and>
   run_writer (BranchRoute ''S'' ''condition'' ex_z_branch) () = Inl (KeyError ''z'') \<and>
   result (validate [] ex_unknown_label) = Inr () \<and>
   (case result (compile (\<lambda>_. None) [] [] ex_unknown_label) of Inl _ \<Rightarrow> False | Inr _ \<Rightarrow> True) \<and>
   result (compile (\<lambda>_. None) [] [] (reroute_graph (\<lambda>_. Label ''x'') ex_unknown_label))
     = map_sum id (reroute_plan (\<lambda>_. Label ''x''))
         (result (compile (\<lambda>_. None) [] [] ex_unknown_label))"
proof -
  have a: "ends ex_z_branch = Some [(''x'', ''A''), (''y'', ''B'')]"
    and b: "[(''x'', ''A''), (''y'', ''B'')] \<noteq> []"
    and c: "[''z''] = (case invoke (path ex_z_branch) () of Labels ls \<Rightarrow> ls | Label r \<Rightarrow> [r])"
    and d: "''z'' \<in> set [''z'']" and e: "''z'' \<notin> fst ` set [(''x'', ''A''), (''y'', ''B'')]"
    by (simp_all add: ex_z_branch_def ex_z_path_def)
  obtain c0 where c0: "result (compile (\<lambda>_. None) [] [] ex_unknown_label) = Inr c0"
    using ex_unknown_label_compile by blast
  from unknown_label_raises_at_run_time[where pv="\<lambda>_. None" and f="\<lambda>_. Label ''x''" and S="''S''"
         and nm="''condition''" and g=ex_unknown_label and interrupt="[]" and ib="[]" and ia="[]",
         OF a b c d e]
  show ?thesis
    using c0 by (simp add: ex_z_branch_def ex_z_path_def ex_unknown_label_validate)
qed

subsection \<open>The writer stages of a compiled graph\<close>























subsection \<open>Mutating the builder after compilation\<close>

lemma unwrap_wrap:
  assumes "\<And>x. f (w x) = Some x"
  shows "unwrap_all f (wrap_all w al) = Some al"
  by (induction al) (auto simp: wrap_all_def assms)

lemma read_dict_SomeD:
  assumes "read_dict f (heap_get h r) = Some al"
  shows "r < length h \<and> (\<exists>d. h ! r = Dict d \<and> unwrap_all f d = Some al)"
proof (cases "heap_get h r")
  case None
  with assms show ?thesis by simp
next
  case (Some x)
  with assms show ?thesis
    by (cases x) (auto simp: heap_get_def split: if_splits)
qed

lemma read_defaultdict_SomeD:
  assumes "read_defaultdict (heap_get h r) = Some bs"
  shows "r < length h \<and> h ! r = Defaultdict bs"
proof (cases "heap_get h r")
  case None
  with assms show ?thesis by simp
next
  case (Some x)
  with assms show ?thesis
    by (cases x) (auto simp: heap_get_def split: if_splits)
qed

lemma read_set_SomeD:
  assumes "read_set (heap_get h r) = Some es"
  shows "r < length h \<and> h ! r = Set_obj es"
proof (cases "heap_get h r")
  case None
  with assms show ?thesis by simp
next
  case (Some x)
  with assms show ?thesis
    by (cases x) (auto simp: heap_get_def split: if_splits)
qed

text \<open>
  A reference that denotes a builder refers to a builder object whose three attributes
  refer to a \<^verbatim>\<open>dict\<close>, a \<^verbatim>\<open>set\<close> and a \<^verbatim>\<open>defaultdict\<close>: four objects of four kinds.
\<close>

lemma load_graphD:
  assumes "load_graph h self = Some g"
  obtains rn re rb dn where
    "self < length h" "h ! self = Graph_object rn re rb (support_multiple_edges g) (compiled g)"
    "rn < length h" "h ! rn = Dict dn" "unwrap_all the_runnable dn = Some (nodes g)"
    "re < length h" "h ! re = Set_obj (edges g)"
    "rb < length h" "h ! rb = Defaultdict (branches g)"
proof (cases "heap_get h self")
  case None
  with assms show ?thesis by (simp add: load_graph_def)
next
  case (Some x)
  show ?thesis
  proof (cases x)
    case (Graph_object rn re rb m cp)
    from assms obtain ns es bs where
      r: "read_dict the_runnable (heap_get h rn) = Some ns" "read_set (heap_get h re) = Some es"
         "read_defaultdict (heap_get h rb) = Some bs"
      and g: "g = \<lparr>nodes = ns, edges = es, branches = bs, support_multiple_edges = m, compiled = cp\<rparr>"
      by (auto simp: load_graph_def Some Graph_object split: option.splits)
    from Some have s: "self < length h" "h ! self = x"
      by (auto simp: heap_get_def split: if_splits)
    from read_dict_SomeD[OF r(1)] read_set_SomeD[OF r(2)] read_defaultdict_SomeD[OF r(3)] s that
    show ?thesis
      by (auto simp: g Graph_object)
  qed (use assms Some in \<open>simp_all add: load_graph_def\<close>)
qed

lemma load_graphI:
  assumes "self < length h" "h ! self = Graph_object rn re rb m cp"
    "rn < length h" "h ! rn = Dict dn" "unwrap_all the_runnable dn = Some ns"
    "re < length h" "h ! re = Set_obj es"
    "rb < length h" "h ! rb = Defaultdict bs"
  shows "load_graph h self
           = Some \<lparr>nodes = ns, edges = es, branches = bs, support_multiple_edges = m, compiled = cp\<rparr>"
  using assms by (simp add: load_graph_def heap_get_def)






text \<open>
  The methods on references agree with the methods on builders: on a reference that
  denotes \<open>g\<close> each returns what the method returns on \<open>g\<close>, and afterwards the reference
  denotes the builder that the method leaves.
\<close>

lemma Graph_new_denotes:
  "load_graph (snd (Graph_new h)) (fst (Graph_new h)) = Some Graph_init"
  by (simp add: Graph_new_def Let_def load_graph_def heap_get_def nth_append Graph_init_def)

lemma Graph_add_node_denotes:
  assumes "load_graph h self = Some g"
  shows "map_option (\<lambda>o2. (result o2, warnings o2, load_graph (state o2) self))
           (Graph_add_node self key action h)
         = Some (result (add_node key action g), warnings (add_node key action g),
                 Some (state (add_node key action g)))"
proof -
  from load_graphD[OF assms] obtain rn re rb dn where r:
    "self < length h" "h ! self = Graph_object rn re rb (support_multiple_edges g) (compiled g)"
    "rn < length h" "h ! rn = Dict dn" "unwrap_all the_runnable dn = Some (nodes g)"
    "re < length h" "h ! re = Set_obj (edges g)"
    "rb < length h" "h ! rb = Defaultdict (branches g)"
    by metis
  have d: "rn \<noteq> self" "rn \<noteq> re" "rn \<noteq> rb"
    using r by auto
  have s: "heap_get h self = Some (Graph_object rn re rb (support_multiple_edges g) (compiled g))"
    using r(1,2) by (simp add: heap_get_def)
  have "load_graph (h[rn := Dict (wrap_all Runnable_val ns)]) self = Some (g\<lparr>nodes := ns\<rparr>)" for ns
    using load_graphI[of self "h[rn := Dict (wrap_all Runnable_val ns)]" rn re rb
            "support_multiple_edges g" "compiled g" "wrap_all Runnable_val ns" ns "edges g" "branches g"]
      r d
    by (simp add: unwrap_wrap)
  then show ?thesis
    by (simp add: Graph_add_node_def assms s Let_def add_node_def)
qed

lemma Graph_add_edge_denotes:
  assumes "load_graph h self = Some g"
  shows "map_option (\<lambda>o2. (result o2, warnings o2, load_graph (state o2) self))
           (Graph_add_edge self start_key end_key h)
         = Some (result (add_edge start_key end_key g), warnings (add_edge start_key end_key g),
                 Some (state (add_edge start_key end_key g)))"
proof -
  from load_graphD[OF assms] obtain rn re rb dn where r:
    "self < length h" "h ! self = Graph_object rn re rb (support_multiple_edges g) (compiled g)"
    "rn < length h" "h ! rn = Dict dn" "unwrap_all the_runnable dn = Some (nodes g)"
    "re < length h" "h ! re = Set_obj (edges g)"
    "rb < length h" "h ! rb = Defaultdict (branches g)"
    by metis
  have d: "re \<noteq> self" "rn \<noteq> re" "re \<noteq> rb"
    using r by auto
  have s: "heap_get h self = Some (Graph_object rn re rb (support_multiple_edges g) (compiled g))"
    using r(1,2) by (simp add: heap_get_def)
  have "load_graph (h[re := Set_obj es]) self = Some (g\<lparr>edges := es\<rparr>)" for es
    using load_graphI[of self "h[re := Set_obj es]" rn re rb
            "support_multiple_edges g" "compiled g" dn "nodes g" es "branches g"]
      r d
    by simp
  then show ?thesis
    by (simp add: Graph_add_edge_def assms s Let_def add_edge_def)
qed

lemma Graph_add_conditional_edges_denotes:
  assumes "load_graph h self = Some g"
  shows "map_option (\<lambda>o2. (result o2, warnings o2, load_graph (state o2) self))
           (Graph_add_conditional_edges self source p path_map thn h)
         = Some (result (add_conditional_edges source p path_map thn g),
                 warnings (add_conditional_edges source p path_map thn g),
                 Some (state (add_conditional_edges source p path_map thn g)))"
proof -
  from load_graphD[OF assms] obtain rn re rb dn where r:
    "self < length h" "h ! self = Graph_object rn re rb (support_multiple_edges g) (compiled g)"
    "rn < length h" "h ! rn = Dict dn" "unwrap_all the_runnable dn = Some (nodes g)"
    "re < length h" "h ! re = Set_obj (edges g)"
    "rb < length h" "h ! rb = Defaultdict (branches g)"
    by metis
  have d: "rb \<noteq> self" "rn \<noteq> rb" "re \<noteq> rb"
    using r by auto
  have s: "heap_get h self = Some (Graph_object rn re rb (support_multiple_edges g) (compiled g))"
    using r(1,2) by (simp add: heap_get_def)
  have "load_graph (h[rb := Defaultdict bs]) self = Some (g\<lparr>branches := bs\<rparr>)" for bs
    using load_graphI[of self "h[rb := Defaultdict bs]" rn re rb
            "support_multiple_edges g" "compiled g" dn "nodes g" "edges g" bs]
      r d
    by simp
  then show ?thesis
    by (simp add: Graph_add_conditional_edges_def assms s Let_def add_conditional_edges_def)
qed



end
